theory Spec2Isabelle
  imports Complex_Main
begin

section \<open>Python values and exceptions\<close>

text \<open>
  The lumped-parameter ("0D") circulation model of \<^verbatim>\<open>modules/flow0d/cardiovascular0D.py\<close>
  and the Newton drivers of \<^verbatim>\<open>modules/solver/solver_nonlin.py\<close> are embedded as HOL
  functions. Python floats are modelled by \<^typ>\<open>real\<close> (no rounding, no NaN), Python
  integers by \<^typ>\<open>int\<close> or \<^typ>\<open>nat\<close> where the source only counts upwards from zero.
  An exception is a value \<open>Inl e\<close> of the result type; a state that an exception leaves
  behind is not observed, since every exception of these modules aborts the run.
\<close>

datatype error =
    ZeroDivisionError
  | ValueError
  | IndexError
  | KeyError
  | NameError
  | AttributeError
  | TypeError
  | UnboundLocalError
  | PETScError
  | FileNotFoundError
  | RuntimeError int

text \<open>\<^verbatim>\<open>a / b\<close> on Python floats raises when the divisor is zero.\<close>

definition py_truediv :: "real \<Rightarrow> real \<Rightarrow> error + real" where
  "py_truediv a b = (if b = 0 then Inl ZeroDivisionError else Inr (a / b))"

text \<open>
  \<^verbatim>\<open>math.fmod(x, y)\<close>: the remainder \<open>x - n * y\<close> with \<open>n\<close> the quotient truncated
  towards zero; a zero modulus is a \<^verbatim>\<open>ValueError\<close> (math domain error).
\<close>

definition trunc_quot :: "real \<Rightarrow> real \<Rightarrow> int" where
  "trunc_quot x y = (if 0 \<le> x / y then \<lfloor>x / y\<rfloor> else \<lceil>x / y\<rceil>)"

definition math_fmod :: "real \<Rightarrow> real \<Rightarrow> error + real" where
  "math_fmod x y = (if y = 0 then Inl ValueError else Inr (x - y * of_int (trunc_quot x y)))"

section \<open>Time-varying elastance\<close>

text \<open>
  \<^verbatim>\<open>cardiovascular0Dbase.E_t\<close>: a half-cosine activation between \<open>t0\<close> and
  \<open>t0 + act_dur\<close>, zero activation outside. The division by \<open>act_dur\<close> is only reached
  inside the activation window.
\<close>

definition E_t :: "real \<Rightarrow> real \<Rightarrow> real \<Rightarrow> real \<Rightarrow> real \<Rightarrow> error + real" where
  "E_t E_A E_min t t0 act_dur =
     (if t \<ge> t0 \<and> t \<le> t0 + act_dur then
        (case py_truediv (2 * pi * (t - t0)) act_dur of
           Inl e \<Rightarrow> Inl e
         | Inr q \<Rightarrow> Inr (E_A * (0.5 * (1 - cos q)) + E_min))
      else Inr (E_A * 0.0 + E_min))"

section \<open>Relative comparisons used by the cycle monitor\<close>

text \<open>\<^verbatim>\<open>IsRelativeEqualTo(A, B, Ref)\<close> is \<^verbatim>\<open>(math.fabs(A-B)/Ref) < 1.0e-12\<close>.\<close>

definition IsRelativeEqualTo :: "real \<Rightarrow> real \<Rightarrow> real \<Rightarrow> error + bool" where
  "IsRelativeEqualTo A B Ref =
     (case py_truediv \<bar>A - B\<bar> Ref of
        Inl e \<Rightarrow> Inl e
      | Inr q \<Rightarrow> Inr (q < 1 / 10 ^ 12))"

text \<open>
  \<^verbatim>\<open>ModuloIsRelativeZero(value, modulo, Ref)\<close> is
  \<^verbatim>\<open>IsRelativeEqualTo(math.fmod(value+modulo/2.,modulo)-modulo/2.,0.0,Ref)\<close>;
  the argument (and so \<^verbatim>\<open>math.fmod\<close>) is evaluated before the call.
\<close>

definition ModuloIsRelativeZero :: "real \<Rightarrow> real \<Rightarrow> real \<Rightarrow> error + bool" where
  "ModuloIsRelativeZero val modulus Ref =
     (case math_fmod (val + modulus / 2) modulus of
        Inl e \<Rightarrow> Inl e
      | Inr m \<Rightarrow> IsRelativeEqualTo (m - modulus / 2) 0 Ref)"

section \<open>Sequencing, loops and indexing\<close>

text \<open>
  \<open>ebind\<close> sequences two steps, the second of which runs only when the first did not
  raise; \<open>for_each xs body\<close> is \<^verbatim>\<open>for x in xs: body\<close>, and \<open>for_range a b body\<close> is
  \<^verbatim>\<open>for i in range(a, b): body\<close>.
\<close>

definition ebind :: "error + 'a \<Rightarrow> ('a \<Rightarrow> error + 'b) \<Rightarrow> error + 'b" where
  "ebind r k = (case r of Inl e \<Rightarrow> Inl e | Inr v \<Rightarrow> k v)"

primrec for_each :: "'a list \<Rightarrow> ('a \<Rightarrow> 's \<Rightarrow> error + 's) \<Rightarrow> 's \<Rightarrow> error + 's" where
  "for_each [] body s = Inr s"
| "for_each (x # xs) body s = ebind (body x s) (for_each xs body)"

definition for_range :: "nat \<Rightarrow> nat \<Rightarrow> (nat \<Rightarrow> 's \<Rightarrow> error + 's) \<Rightarrow> 's \<Rightarrow> error + 's" where
  "for_range a b body s = for_each [a..<b] body s"

text \<open>
  Reading and writing a Python list or a one-dimensional numpy array at an index that a
  \<^verbatim>\<open>range\<close> produced (never negative): out of range is an \<^verbatim>\<open>IndexError\<close>.
\<close>

definition list_get :: "'a list \<Rightarrow> nat \<Rightarrow> error + 'a" where
  "list_get xs i = (if i < length xs then Inr (xs ! i) else Inl IndexError)"

definition list_set :: "'a list \<Rightarrow> nat \<Rightarrow> 'a \<Rightarrow> error + 'a list" where
  "list_set xs i v = (if i < length xs then Inr (xs[i := v]) else Inl IndexError)"

text \<open>
  A state vector is either a numpy array, or a distributed PETSc vector of which this
  process owns the entries \<open>lo, ..., lo + length local - 1\<close>. A process reads and writes
  the entries it owns.
\<close>

datatype vec = Ndarray "real list" | PETScVec nat "real list"

definition is_ndarray :: "vec \<Rightarrow> bool" where
  "is_ndarray v = (case v of Ndarray _ \<Rightarrow> True | PETScVec _ _ \<Rightarrow> False)"

definition getOwnershipRange :: "vec \<Rightarrow> error + (nat \<times> nat)" where
  "getOwnershipRange v =
     (case v of Ndarray _ \<Rightarrow> Inl AttributeError
              | PETScVec lo xs \<Rightarrow> Inr (lo, lo + length xs))"

definition vec_get :: "vec \<Rightarrow> nat \<Rightarrow> error + real" where
  "vec_get v i =
     (case v of
        Ndarray xs \<Rightarrow> list_get xs i
      | PETScVec lo xs \<Rightarrow>
          (if lo \<le> i \<and> i < lo + length xs then Inr (xs ! (i - lo)) else Inl PETScError))"

definition vec_set :: "vec \<Rightarrow> nat \<Rightarrow> real \<Rightarrow> error + vec" where
  "vec_set v i a =
     (case v of
        Ndarray xs \<Rightarrow> ebind (list_set xs i a) (\<lambda>ys. Inr (Ndarray ys))
      | PETScVec lo xs \<Rightarrow>
          (if lo \<le> i \<and> i < lo + length xs
           then Inr (PETScVec lo (xs[i - lo := a])) else Inl PETScError))"

text \<open>
  The pair \<^verbatim>\<open>xs, xe\<close> (\<^verbatim>\<open>vs, ve\<close>) that the methods compute first: the whole array when
  the tested vector is a numpy array, else the ownership range of \<open>w\<close>.
\<close>

definition index_range :: "vec \<Rightarrow> vec \<Rightarrow> error + (nat \<times> nat)" where
  "index_range tested w =
     (case tested of Ndarray xs \<Rightarrow> Inr (0, length xs)
                   | PETScVec _ _ \<Rightarrow> getOwnershipRange w)"

text \<open>A dense matrix, \<^verbatim>\<open>K[i,j]\<close>, stored by rows.\<close>

type_synonym matrix = "real list list"

definition mat_set :: "'a list list \<Rightarrow> nat \<Rightarrow> nat \<Rightarrow> 'a \<Rightarrow> error + 'a list list" where
  "mat_set K i j v =
     ebind (list_get K i) (\<lambda>row. ebind (list_set row j v) (\<lambda>row'. list_set K i row'))"

definition mat_get :: "'a list list \<Rightarrow> nat \<Rightarrow> nat \<Rightarrow> error + 'a" where
  "mat_get K i j = ebind (list_get K i) (\<lambda>row. list_get row j)"

section \<open>The lumped-parameter model object\<close>

text \<open>
  A compiled expression is called as \<^verbatim>\<open>fn(x_sq, c, t, fnc)\<close>. A table slot holds the
  integer \<^verbatim>\<open>0\<close> until \<^verbatim>\<open>lambdify_expressions\<close> fills it (\<open>None\<close>: calling it is a
  \<^verbatim>\<open>TypeError\<close>).
\<close>

type_synonym callable = "real list \<Rightarrow> real list \<Rightarrow> real \<Rightarrow> real list \<Rightarrow> real"

text \<open>
  The attributes of \<^verbatim>\<open>cardiovascular0Dbase\<close> that the embedded methods read or write.
  \<open>'e\<close> is the type of symbolic (Sympy) expressions. Isabelle reserves names that end
  in an underscore, so the symbolic tables \<^verbatim>\<open>x_, c_, t_, fnc_, df_, f_, a_, Kdf_, Kf_\<close>
  are the fields \<open>x_sym, ..., Kf_sym\<close> and the compiled tables
  \<^verbatim>\<open>df__, f__, a__, Kdf__, Kf__\<close> are \<open>df_fn, ..., Kf_fn\<close>. \<open>comm\<close> is the rank of this
  process in the communicator, \<open>None\<close> when the object was built without one (the
  attribute is then missing). \<open>varmap\<close> and \<open>chmodels\<close> are dictionaries in insertion
  order.
\<close>

record 'e model =
  T_cycl :: real
  theta :: real
  have_induced_pert :: bool
  comm :: "nat option"
  numdof :: nat
  R_vin_l_max :: real
  R_vin_l_min :: real
  R_vout_l_max :: real
  R_vout_l_min :: real
  x_sym :: "'e list"
  c_sym :: "'e list"
  t_sym :: 'e
  fnc_sym :: "'e list"
  df_sym :: "'e list"
  f_sym :: "'e list"
  a_sym :: "'e list"
  Kdf_sym :: "'e list list"
  Kf_sym :: "'e list list"
  df_fn :: "callable option list"
  f_fn :: "callable option list"
  a_fn :: "callable option list"
  Kdf_fn :: "callable option list list"
  Kf_fn :: "callable option list list"
  varmap :: "(string \<times> nat) list"
  chmodels :: "(string \<times> string) list"
  cq :: string
  switch_V :: "int list"
  switch_p :: "int list"
  si :: "int list"
  elastarrays :: "real list list"
  eqtimearray :: "real list"
  v_ids :: "int list"
  c_ids :: "int list"
  vindex_ch :: "int list"
  cindex_ch :: "int list"
  cname_prfx :: "string list"
  vname_prfx :: "string list"

text \<open>Calling a table slot.\<close>

definition call :: "callable option \<Rightarrow> real list \<Rightarrow> real list \<Rightarrow> real \<Rightarrow> real list \<Rightarrow> error + real" where
  "call fn x_sq c t fnc = (case fn of None \<Rightarrow> Inl TypeError | Some g \<Rightarrow> Inr (g x_sq c t fnc))"

text \<open>
  \<^verbatim>\<open>x_sq\<close>: the array itself, or the vector gathered from all processes
  (\<^verbatim>\<open>mpiroutines.allgather_vec\<close>, a collaborator passed as \<open>allgather_vec\<close>), which reads
  \<^verbatim>\<open>self.comm\<close>.
\<close>

definition squeeze :: "('e, 'z) model_scheme \<Rightarrow> (vec \<Rightarrow> real list) \<Rightarrow> vec \<Rightarrow> error + real list" where
  "squeeze m allgather_vec x =
     (case x of
        Ndarray xs \<Rightarrow> Inr xs
      | PETScVec _ _ \<Rightarrow>
          (case comm m of None \<Rightarrow> Inl AttributeError | Some _ \<Rightarrow> Inr (allgather_vec x)))"

section \<open>Evaluating the model\<close>

text \<open>
  \<^verbatim>\<open>evaluate(x, dt, t, df, f, K, c, a, fnc)\<close>. Each of the outputs \<open>df\<close>, \<open>f\<close>, \<open>K\<close>, \<open>a\<close> is
  optional (\<open>None\<close>: not requested); the function returns the outputs as it leaves them.
\<close>

definition fill_vec ::
  "nat \<Rightarrow> callable option list \<Rightarrow> real list \<Rightarrow> real list \<Rightarrow> real \<Rightarrow> real list \<Rightarrow> vec \<Rightarrow> error + vec" where
  "fill_vec n tbl x_sq c t fnc out =
     for_range 0 n
       (\<lambda>i v. ebind (list_get tbl i) (\<lambda>fn. ebind (call fn x_sq c t fnc) (\<lambda>y. vec_set v i y)))
       out"

definition K_entry ::
  "('e, 'z) model_scheme \<Rightarrow> real list \<Rightarrow> real \<Rightarrow> real list \<Rightarrow> real \<Rightarrow> real list \<Rightarrow> nat \<Rightarrow> nat \<Rightarrow> error + real" where
  "K_entry m x_sq dt c t fnc i j =
     ebind (mat_get (Kdf_fn m) i j) (\<lambda>kdf.
     ebind (call kdf x_sq c t fnc) (\<lambda>d.
     ebind (py_truediv d dt) (\<lambda>q.
     ebind (mat_get (Kf_fn m) i j) (\<lambda>kf.
     ebind (call kf x_sq c t fnc) (\<lambda>g.
     Inr (q + g * theta m))))))"

definition fill_K ::
  "('e, 'z) model_scheme \<Rightarrow> real list \<Rightarrow> real \<Rightarrow> real list \<Rightarrow> real \<Rightarrow> real list \<Rightarrow> matrix \<Rightarrow> error + matrix" where
  "fill_K m x_sq dt c t fnc K =
     for_range 0 (numdof m)
       (\<lambda>i. for_range 0 (numdof m)
          (\<lambda>j K'. ebind (K_entry m x_sq dt c t fnc i j) (mat_set K' i j)))
       K"

definition on_request :: "'a option \<Rightarrow> ('a \<Rightarrow> error + 'a) \<Rightarrow> error + 'a option" where
  "on_request out fill =
     (case out of None \<Rightarrow> Inr None | Some v \<Rightarrow> ebind (fill v) (\<lambda>v'. Inr (Some v')))"

definition evaluate ::
  "('e, 'z) model_scheme \<Rightarrow> (vec \<Rightarrow> real list) \<Rightarrow> vec \<Rightarrow> real \<Rightarrow> real \<Rightarrow>
   vec option \<Rightarrow> vec option \<Rightarrow> matrix option \<Rightarrow> real list \<Rightarrow> vec option \<Rightarrow> real list \<Rightarrow>
   error + (vec option \<times> vec option \<times> matrix option \<times> vec option)" where
  "evaluate m allgather_vec x dt t df f K c a fnc =
     ebind (squeeze m allgather_vec x) (\<lambda>x_sq.
     ebind (on_request df (fill_vec (numdof m) (df_fn m) x_sq c t fnc)) (\<lambda>df'.
     ebind (on_request f (fill_vec (numdof m) (f_fn m) x_sq c t fnc)) (\<lambda>f'.
     ebind (on_request K (fill_K m x_sq dt c t fnc)) (\<lambda>K'.
     ebind (on_request a (fill_vec (numdof m) (a_fn m) x_sq c t fnc)) (\<lambda>a'.
     Inr (df', f', K', a'))))))"

section \<open>Symbolic Jacobians and compilation\<close>

text \<open>
  \<^verbatim>\<open>set_stiffness\<close> differentiates every rate part \<^verbatim>\<open>df_[i]\<close> and every algebraic part
  \<^verbatim>\<open>f_[i]\<close> with respect to every unknown \<^verbatim>\<open>x_[j]\<close>; \<open>sp_diff\<close> is Sympy's \<^verbatim>\<open>sp.diff\<close>.
\<close>

definition stiffness_entry ::
  "('e \<Rightarrow> 'e \<Rightarrow> 'e) \<Rightarrow> nat \<Rightarrow> nat \<Rightarrow> ('e, 'z) model_scheme \<Rightarrow> error + ('e, 'z) model_scheme" where
  "stiffness_entry sp_diff i j m =
     ebind (list_get (df_sym m) i) (\<lambda>dfi.
     ebind (list_get (x_sym m) j) (\<lambda>xj.
     ebind (mat_set (Kdf_sym m) i j (sp_diff dfi xj)) (\<lambda>Kdf'.
     ebind (list_get (f_sym m) i) (\<lambda>fi.
     ebind (mat_set (Kf_sym m) i j (sp_diff fi xj)) (\<lambda>Kf'.
     Inr (m\<lparr>Kdf_sym := Kdf', Kf_sym := Kf'\<rparr>))))))"

definition set_stiffness ::
  "('e \<Rightarrow> 'e \<Rightarrow> 'e) \<Rightarrow> ('e, 'z) model_scheme \<Rightarrow> error + ('e, 'z) model_scheme" where
  "set_stiffness sp_diff m =
     for_range 0 (numdof m) (\<lambda>i. for_range 0 (numdof m) (stiffness_entry sp_diff i)) m"

text \<open>
  \<^verbatim>\<open>lambdify_expressions\<close> compiles every symbolic expression; \<open>sp_lambdify\<close> is Sympy's
  \<^verbatim>\<open>sp.lambdify([x_, c_, t_, fnc_], expr, 'numpy')\<close>, applied to the argument symbols and
  the expression.
\<close>

definition arg_syms :: "('e, 'z) model_scheme \<Rightarrow> 'e list \<times> 'e list \<times> 'e \<times> 'e list" where
  "arg_syms m = (x_sym m, c_sym m, t_sym m, fnc_sym m)"

definition lambdify_equation ::
  "('e list \<times> 'e list \<times> 'e \<times> 'e list \<Rightarrow> 'e \<Rightarrow> callable) \<Rightarrow> nat \<Rightarrow>
   ('e, 'z) model_scheme \<Rightarrow> error + ('e, 'z) model_scheme" where
  "lambdify_equation sp_lambdify i m =
     ebind (list_get (df_sym m) i) (\<lambda>e1.
     ebind (list_set (df_fn m) i (Some (sp_lambdify (arg_syms m) e1))) (\<lambda>t1.
     ebind (list_get (f_sym m) i) (\<lambda>e2.
     ebind (list_set (f_fn m) i (Some (sp_lambdify (arg_syms m) e2))) (\<lambda>t2.
     ebind (list_get (a_sym m) i) (\<lambda>e3.
     ebind (list_set (a_fn m) i (Some (sp_lambdify (arg_syms m) e3))) (\<lambda>t3.
     Inr (m\<lparr>df_fn := t1, f_fn := t2, a_fn := t3\<rparr>)))))))"

definition lambdify_entry ::
  "('e list \<times> 'e list \<times> 'e \<times> 'e list \<Rightarrow> 'e \<Rightarrow> callable) \<Rightarrow> nat \<Rightarrow> nat \<Rightarrow>
   ('e, 'z) model_scheme \<Rightarrow> error + ('e, 'z) model_scheme" where
  "lambdify_entry sp_lambdify i j m =
     ebind (mat_get (Kdf_sym m) i j) (\<lambda>e1.
     ebind (mat_set (Kdf_fn m) i j (Some (sp_lambdify (arg_syms m) e1))) (\<lambda>K1.
     ebind (mat_get (Kf_sym m) i j) (\<lambda>e2.
     ebind (mat_set (Kf_fn m) i j (Some (sp_lambdify (arg_syms m) e2))) (\<lambda>K2.
     Inr (m\<lparr>Kdf_fn := K1, Kf_fn := K2\<rparr>)))))"

definition lambdify_expressions ::
  "('e list \<times> 'e list \<times> 'e \<times> 'e list \<Rightarrow> 'e \<Rightarrow> callable) \<Rightarrow>
   ('e, 'z) model_scheme \<Rightarrow> error + ('e, 'z) model_scheme" where
  "lambdify_expressions sp_lambdify m =
     ebind (for_range 0 (numdof m) (lambdify_equation sp_lambdify) m)
       (for_range 0 (numdof m) (\<lambda>i. for_range 0 (numdof m) (lambdify_entry sp_lambdify i)))"

text \<open>
  \<^verbatim>\<open>set_solve_arrays\<close> allocates every table with \<^verbatim>\<open>numdof\<close> (by \<^verbatim>\<open>numdof\<close>) slots
  holding the integer \<^verbatim>\<open>0\<close>, which Sympy reads as its zero expression, and empties the
  coupling and function symbol lists.
\<close>

definition set_solve_arrays :: "('e::zero, 'z) model_scheme \<Rightarrow> ('e, 'z) model_scheme" where
  "set_solve_arrays m =
     (let n = numdof m in
      m\<lparr>x_sym := replicate n 0, a_sym := replicate n 0, a_fn := replicate n None,
        c_sym := [], fnc_sym := [],
        df_sym := replicate n 0, f_sym := replicate n 0,
        df_fn := replicate n None, f_fn := replicate n None,
        Kdf_sym := replicate n (replicate n 0), Kf_sym := replicate n (replicate n 0),
        Kdf_fn := replicate n (replicate n None), Kf_fn := replicate n (replicate n None)\<rparr>)"

section \<open>Prescribed variables\<close>

text \<open>
  \<^verbatim>\<open>set_prescribed_variables(x, r, K, val, index_prescribed)\<close>: the residual entry is
  overwritten when the index lies in \<^verbatim>\<open>range(xs, xe)\<close>; the row of the stiffness matrix
  is overwritten when the index is one of \<^verbatim>\<open>range(self.numdof)\<close>. The index is a Python
  integer; a negative one matches neither range.
\<close>

definition prescribed_row :: "nat \<Rightarrow> int \<Rightarrow> nat \<Rightarrow> matrix \<Rightarrow> error + matrix" where
  "prescribed_row n index_prescribed i K =
     for_range 0 n
       (\<lambda>j K'. if int j \<noteq> index_prescribed then mat_set K' i j 0 else mat_set K' i j 1) K"

definition set_prescribed_variables ::
  "('e, 'z) model_scheme \<Rightarrow> vec \<Rightarrow> vec \<Rightarrow> matrix \<Rightarrow> real \<Rightarrow> int \<Rightarrow> error + (vec \<times> matrix)" where
  "set_prescribed_variables m x r K val index_prescribed =
     ebind (index_range x x) (\<lambda>(xs, xe).
     ebind (if int xs \<le> index_prescribed \<and> index_prescribed < int xe
            then ebind (vec_get x (nat index_prescribed))
                   (\<lambda>xv. vec_set r (nat index_prescribed) (xv - val))
            else Inr r) (\<lambda>r'.
     ebind (for_range 0 (numdof m)
              (\<lambda>i K'. if int i = index_prescribed then prescribed_row (numdof m) index_prescribed i K'
                      else Inr K')
              K) (\<lambda>K'.
     Inr (r', K'))))"

section \<open>Initial-condition files\<close>

text \<open>
  The files a run leaves behind, by name. A line \<^verbatim>\<open>'%s %.16E\n' % (key, value)\<close> is kept
  as the pair of key and value; the number that the decimal text of the value denotes is
  supplied where the file is read.
\<close>

type_synonym files = "string \<Rightarrow> (string \<times> real) list option"

definition write_initial ::
  "('e, 'z) model_scheme \<Rightarrow> (vec \<Rightarrow> real list) \<Rightarrow> string \<Rightarrow> vec \<Rightarrow> vec \<Rightarrow> files \<Rightarrow> error + files" where
  "write_initial m allgather_vec path varTc_old varTc fs =
     ebind (if is_ndarray varTc_old then Inr (varTc_old, varTc)
            else (case comm m of
                    None \<Rightarrow> Inl AttributeError
                  | Some _ \<Rightarrow> Inr (Ndarray (allgather_vec varTc_old), Ndarray (allgather_vec varTc))))
       (\<lambda>(varTc_old_sq, varTc_sq).
     (case comm m of
        None \<Rightarrow> Inl AttributeError
      | Some rank \<Rightarrow>
          if rank = 0 then
            ebind
              (for_each (varmap m)
                 (\<lambda>(name, idx) (l1, l2).
                    ebind (vec_get varTc_old_sq idx) (\<lambda>y1.
                    ebind (vec_get varTc_sq idx) (\<lambda>y2.
                    Inr (l1 @ [(name @ ''_0'', y1)], l2 @ [(name @ ''_0'', y2)]))))
                 ([], []))
              (\<lambda>(l1, l2).
                 Inr (fs(path @ ''/initial_data_Tstart.txt'' := Some l1,
                         path @ ''/initial_data_Tend.txt'' := Some l2)))
          else Inr fs))"

text \<open>
  \<^verbatim>\<open>set_initial_from_file(initialdata)\<close>: every line is split into key and value and the
  dictionary takes \<^verbatim>\<open>float(val)\<close> under the key, a later line replacing an earlier one
  of the same key. \<open>read_back v\<close> is the float that \<^verbatim>\<open>float\<close> returns for the text that
  \<^verbatim>\<open>'%.16E'\<close> renders of \<open>v\<close>. Opening a file that does not exist raises.
\<close>

definition put_line ::
  "(real \<Rightarrow> real) \<Rightarrow> string \<times> real \<Rightarrow> (string \<Rightarrow> real option) \<Rightarrow> (string \<Rightarrow> real option)" where
  "put_line read_back line pini0D = (case line of (key, val) \<Rightarrow> pini0D(key \<mapsto> read_back val))"

definition set_initial_from_file ::
  "(real \<Rightarrow> real) \<Rightarrow> files \<Rightarrow> string \<Rightarrow> error + (string \<Rightarrow> real option)" where
  "set_initial_from_file read_back fs initialdata =
     (case fs initialdata of
        None \<Rightarrow> Inl FileNotFoundError
      | Some lines \<Rightarrow> Inr (fold (put_line read_back) lines Map.empty))"

text \<open>
  The vectors whose entries \<^verbatim>\<open>write_initial\<close> writes: the arrays themselves when
  \<^verbatim>\<open>varTc_old\<close> is a numpy array, else the gathered vectors.
\<close>

definition gathered :: "(vec \<Rightarrow> real list) \<Rightarrow> vec \<Rightarrow> vec \<Rightarrow> vec" where
  "gathered allgather_vec varTc_old v =
     (if is_ndarray varTc_old then v else Ndarray (allgather_vec v))"

section \<open>The cycle monitor\<close>

text \<open>
  \<^verbatim>\<open>cycle_check\<close>. The one-element list \<^verbatim>\<open>cycle\<close> is the integer it holds.
  \<^verbatim>\<open>check_periodic\<close> is a method of the model that this module does not define; it is
  the parameter \<open>check_periodic\<close>, which returns its verdict and the cycle error it
  stores. The function returns \<^verbatim>\<open>is_periodic\<close> and the objects it mutates:
  \<^verbatim>\<open>varTc\<close>, \<^verbatim>\<open>varTc_old\<close>, the cycle counter, the cycle error and the files.
\<close>

definition copy_range :: "nat \<Rightarrow> nat \<Rightarrow> vec \<Rightarrow> vec \<Rightarrow> error + vec" where
  "copy_range vs ve src dst =
     for_range vs ve (\<lambda>i d. ebind (vec_get src i) (\<lambda>y. vec_set d i y)) dst"

definition at_cycle_boundary :: "('e, 'z) model_scheme \<Rightarrow> real \<Rightarrow> error + bool" where
  "at_cycle_boundary m t =
     (if T_cycl m > 0 then ModuloIsRelativeZero t (T_cycl m) t else Inr False)"

definition cycle_check ::
  "('e, 'z) model_scheme \<Rightarrow> (vec \<Rightarrow> real list) \<Rightarrow>
   (vec \<Rightarrow> vec \<Rightarrow> real \<Rightarrow> string \<Rightarrow> real list \<Rightarrow> error + (bool \<times> real list)) \<Rightarrow>
   vec \<Rightarrow> vec \<Rightarrow> vec \<Rightarrow> real \<Rightarrow> int \<Rightarrow> real list \<Rightarrow> real \<Rightarrow> string \<Rightarrow> string option \<Rightarrow> int \<Rightarrow> files \<Rightarrow>
   error + (bool \<times> vec \<times> vec \<times> int \<times> real list \<times> files)" where
  "cycle_check m allgather_vec check_periodic var varTc varTc_old t cycle cyclerr eps_periodic
     check inioutpath induce_pert_after_cycl fs =
     ebind (index_range varTc var) (\<lambda>(vs, ve).
     ebind (at_cycle_boundary m t) (\<lambda>boundary.
     if boundary then
       ebind (copy_range vs ve var varTc) (\<lambda>varTc1.
       ebind (check_periodic varTc1 varTc_old eps_periodic check cyclerr) (\<lambda>(p, cyclerr1).
       let is_periodic = (if cycle \<le> induce_pert_after_cycl then False else p) in
       ebind (case inioutpath of
                Some path \<Rightarrow>
                  if is_periodic then write_initial m allgather_vec path varTc_old varTc1 fs
                  else Inr fs
              | None \<Rightarrow> Inr fs) (\<lambda>fs1.
       ebind (copy_range vs ve varTc1 varTc_old) (\<lambda>varTc_old1.
       Inr (is_periodic, varTc1, varTc_old1, cycle + 1, cyclerr1, fs1)))))
     else Inr (False, varTc, varTc_old, cycle, cyclerr, fs)))"

section \<open>Chamber interfaces and disease perturbation\<close>

text \<open>
  What the model object is built from outside this module: Sympy's differentiation and
  compilation, the methods \<^verbatim>\<open>setup_arrays\<close> and \<^verbatim>\<open>equation_map\<close> of the concrete
  circulation model, and \<^verbatim>\<open>set_prescribed_elastance\<close>, which reads its result from
  files.
\<close>

record 'e collaborators =
  sp_diff :: "'e \<Rightarrow> 'e \<Rightarrow> 'e"
  sp_lambdify :: "'e list \<times> 'e list \<times> 'e \<times> 'e list \<Rightarrow> 'e \<Rightarrow> callable"
  setup_arrays :: "'e model \<Rightarrow> error + 'e model"
  equation_map :: "'e model \<Rightarrow> error + 'e model"
  set_prescribed_elastance :: "'e model \<Rightarrow> string \<Rightarrow> error + (real list \<times> real list)"

definition dict_get :: "('k \<times> 'v) list \<Rightarrow> 'k \<Rightarrow> error + 'v" where
  "dict_get d k = (case map_of d k of None \<Rightarrow> Inl KeyError | Some v \<Rightarrow> Inr v)"

definition set_switches :: "nat \<Rightarrow> int \<Rightarrow> int \<Rightarrow> 'e model \<Rightarrow> error + 'e model" where
  "set_switches i sv sp m =
     ebind (list_set (switch_V m) i sv) (\<lambda>v.
     ebind (list_set (switch_p m) i sp) (\<lambda>p.
     Inr (m\<lparr>switch_V := v, switch_p := p\<rparr>)))"

definition set_prefixes :: "nat \<Rightarrow> string \<Rightarrow> string \<Rightarrow> 'e model \<Rightarrow> error + 'e model" where
  "set_prefixes i cn vn m =
     ebind (list_set (cname_prfx m) i cn) (\<lambda>c.
     ebind (list_set (vname_prfx m) i vn) (\<lambda>v.
     Inr (m\<lparr>cname_prfx := c, vname_prfx := v\<rparr>)))"

definition chamber_interface :: "'e collaborators \<Rightarrow> nat \<times> string \<Rightarrow> 'e model \<Rightarrow> error + 'e model" where
  "chamber_interface co ich m =
     (case ich of (i, ch) \<Rightarrow>
     ebind (dict_get (chmodels m) ch) (\<lambda>chmodel.
     if chmodel = ''prescr_elast'' then
       ebind (set_switches i 1 0 m) (\<lambda>m1.
       ebind (set_prescribed_elastance co m1 ch) (\<lambda>(el, eqt).
       ebind (list_set (elastarrays m1) i el) (\<lambda>els.
       Inr (m1\<lparr>elastarrays := els, eqtimearray := eqt\<rparr>))))
     else if chmodel = ''0D_elast'' then set_switches i 1 0 m
     else if chmodel = ''3D_fem'' then
       (if cq m = ''volume'' then
          ebind (list_get (vindex_ch m) i) (\<lambda>vi.
          ebind (list_get (cindex_ch m) i) (\<lambda>ci.
          Inr (m\<lparr>v_ids := v_ids m @ [vi], c_ids := c_ids m @ [ci]\<rparr>)))
        else if cq m = ''flux'' then
          ebind (set_switches i 0 0 m) (\<lambda>m1.
          ebind (set_prefixes i ''Q'' ''p'' m1) (\<lambda>m2.
          ebind (list_get (vindex_ch m2) i) (\<lambda>vi.
          ebind (list_get (cindex_ch m2) i) (\<lambda>ci.
          Inr (m2\<lparr>v_ids := v_ids m2 @ [vi], c_ids := c_ids m2 @ [ci]\<rparr>)))))
        else if cq m = ''pressure'' then
          ebind (set_switches i 0 1 m) (\<lambda>m1.
          ebind (set_prefixes i ''p'' ''Q'' m1) (\<lambda>m2.
          ebind (list_set (si m2) i 1) (\<lambda>si'.
          ebind (list_get (vindex_ch m2) i) (\<lambda>vi.
          ebind (list_get si' i) (\<lambda>sii.
          Inr (m2\<lparr>si := si', v_ids := v_ids m2 @ [vi - sii], c_ids := c_ids m2 @ [int i]\<rparr>))))))
        else Inl NameError)
     else Inl NameError))"

definition set_chamber_interfaces :: "'e collaborators \<Rightarrow> 'e model \<Rightarrow> error + 'e model" where
  "set_chamber_interfaces co m =
     for_each [(0, ''lv''), (1, ''rv''), (2, ''la''), (3, ''ra'')] (chamber_interface co) m"

text \<open>
  \<^verbatim>\<open>induce_perturbation(perturb_type, cycle, induce_pert_after_cycl)\<close>. The message it
  prints on rank 0 is not part of the model; reading \<^verbatim>\<open>self.comm.rank\<close> is.
\<close>

definition perturb :: "string \<Rightarrow> 'e model \<Rightarrow> 'e model" where
  "perturb perturb_type m =
     (let m1 = (if perturb_type = ''mr'' then m\<lparr>R_vin_l_max := 1 / 10 ^ 5\<rparr> else m);
          m2 = (if perturb_type = ''ms'' then m1\<lparr>R_vin_l_min := 25 / 10 ^ 6\<rparr> else m1);
          m3 = (if perturb_type = ''ar'' then m2\<lparr>R_vout_l_max := 5 / 10 ^ 5\<rparr> else m2)
      in (if perturb_type = ''as'' then m3\<lparr>R_vout_l_min := 5 / 10 ^ 5\<rparr> else m3))"

definition rebuild :: "'e collaborators \<Rightarrow> 'e model \<Rightarrow> error + 'e model" where
  "rebuild co m =
     ebind (setup_arrays co m) (\<lambda>m1.
     ebind (set_chamber_interfaces co m1) (\<lambda>m2.
     ebind (equation_map co m2) (\<lambda>m3.
     ebind (set_stiffness (sp_diff co) m3) (\<lambda>m4.
     lambdify_expressions (sp_lambdify co) m4))))"

definition induce_perturbation ::
  "'e collaborators \<Rightarrow> 'e model \<Rightarrow> string \<Rightarrow> int \<Rightarrow> int \<Rightarrow> error + 'e model" where
  "induce_perturbation co m perturb_type cycle induce_pert_after_cycl =
     (if induce_pert_after_cycl > 0 \<and> \<not> have_induced_pert m then
        (if cycle > induce_pert_after_cycl then
           (case comm m of
              None \<Rightarrow> Inl AttributeError
            | Some rank \<Rightarrow>
                ebind (rebuild co (perturb perturb_type m))
                  (\<lambda>m'. Inr (m'\<lparr>have_induced_pert := True\<rparr>)))
         else Inr m)
      else Inr m)"

text \<open>
  The order in which the data-model invariant of the specification lists the steps:
  rebuild the symbolic equations, recompile the numeric callables, re-differentiate the
  Jacobians. It is stated here to be compared with \<open>rebuild\<close>.
\<close>

definition rebuild_recompile_rediff :: "'e collaborators \<Rightarrow> 'e model \<Rightarrow> error + 'e model" where
  "rebuild_recompile_rediff co m =
     ebind (setup_arrays co m) (\<lambda>m1.
     ebind (set_chamber_interfaces co m1) (\<lambda>m2.
     ebind (equation_map co m2) (\<lambda>m3.
     ebind (lambdify_expressions (sp_lambdify co) m3) (\<lambda>m4.
     set_stiffness (sp_diff co) m4))))"

section \<open>The Newton solver with pseudo-transient continuation\<close>

text \<open>
  The attributes of the solver object that \<^verbatim>\<open>newton\<close> reads or writes. \<open>divcont\<close> is
  \<^verbatim>\<open>solver_params['divergence_continue']\<close> (\<open>None\<close> when the option is absent),
  \<open>incompressible_2field\<close> is the flag of the problem object, \<open>coupling_type\<close> and
  \<open>ptype\<close> are read by the monolithic solver only.
\<close>

record solver =
  maxiter :: int
  divcont :: "string option"
  PTC :: bool
  k_PTC_initial :: real
  PTC_randadapt_range :: "real list"
  solvetype :: string
  tolerances :: "(string \<times> real) list"
  incompressible_2field :: bool
  coupling_type :: string
  ptype :: string

text \<open>
  What the collaborators hand back in one pass of the loop: the norms of the residuals
  and of the increments, the increments themselves (the solution of the linear system,
  split by block), and the sample \<open>xi\<close> in \<open>[0, 1)\<close> from which
  \<^verbatim>\<open>np.random.uniform(low, high)\<close> computes \<open>low + (high - low) * xi\<close> when it is drawn.
  \<open>solve0D s lm\<close> is the inner Newton solve of the lumped model for the state \<open>s\<close> with
  the multipliers \<open>lm\<close> as coupling pressures; it raises when it does not converge.
  \<open>raised\<close> is the exception, if any, that the assembly, a local Newton solve at the
  integration points or the linear solver raises in this pass.
  A vector of unknowns is an element of a real vector space.
\<close>

record ('u, 'p, 's) pass =
  res_u :: real
  inc_u :: real
  res_p :: real
  inc_p :: real
  res_0d :: real
  inc_0d :: real
  del_u :: 'u
  del_p :: 'p
  del_s :: 's
  xi :: real
  solve0D :: "'s \<Rightarrow> 's \<Rightarrow> error + 's"
  raised :: "error option"

definition uniform :: "real \<Rightarrow> real \<Rightarrow> real \<Rightarrow> real" where
  "uniform low high sample = low + (high - low) * sample"

text \<open>\<^verbatim>\<open>y.axpy(alpha, x)\<close> is \<open>y := y + alpha x\<close>; \<^verbatim>\<open>y.axpby(alpha, beta, x)\<close> is
  \<open>y := alpha x + beta y\<close>; \<^verbatim>\<open>reset_step(vec, vec_start, ghosted)\<close> is
  \<^verbatim>\<open>vec.axpby(1.0, 0.0, vec_start)\<close> followed by an exchange of ghost values.\<close>

definition axpy :: "real \<Rightarrow> 'v::real_vector \<Rightarrow> 'v \<Rightarrow> 'v" where
  "axpy alpha x y = y + scaleR alpha x"

definition axpby :: "real \<Rightarrow> real \<Rightarrow> 'v::real_vector \<Rightarrow> 'v \<Rightarrow> 'v" where
  "axpby alpha beta x y = scaleR alpha x + scaleR beta y"

definition reset_step :: "'v::real_vector \<Rightarrow> 'v \<Rightarrow> 'v" where
  "reset_step vec vec_start = axpby 1 0 vec_start vec"

text \<open>
  The local variables of \<^verbatim>\<open>newton\<close> and the objects it mutates. The vector \<^verbatim>\<open>s\<close> that
  the monolithic solver receives and the multipliers \<^verbatim>\<open>self.pbc.lm\<close> live in a store
  indexed by \<open>StateVec\<close> and \<open>LM\<close>, since a caller may pass the multipliers themselves
  as \<^verbatim>\<open>s\<close>. \<open>struct_res_u_norm_last\<close> is unbound until the first pass assigns it.
\<close>

datatype vecref = StateVec | LM

record ('u, 'p, 's) newton_state =
  slv :: solver
  u :: 'u
  p :: 'p
  store :: "vecref \<Rightarrow> 's"
  it :: int
  k_PTC :: real
  counter_adapt :: nat
  struct_res_u_norm_last :: "real option"

definition max_adapt :: nat where
  "max_adapt = 50"

definition maxresval :: real where
  "maxresval = 10 ^ 16"

text \<open>
  Lines 414 to 416 (and 1059 to 1061): the update of the PTC factor from the ratio of
  the current to the previous residual norm, then the bookkeeping of the norm.
\<close>

definition ptc_update :: "real \<Rightarrow> ('u, 'p, 's) newton_state \<Rightarrow> error + ('u, 'p, 's) newton_state" where
  "ptc_update res st =
     ebind (if PTC (slv st) \<and> it st > 1 then
              (case struct_res_u_norm_last st of
                 None \<Rightarrow> Inl UnboundLocalError
               | Some prev \<Rightarrow>
                   if prev > 0 then Inr (st\<lparr>k_PTC := k_PTC st * (res / prev)\<rparr>) else Inr st)
            else Inr st)
       (\<lambda>st'. Inr (st'\<lparr>struct_res_u_norm_last := Some res\<rparr>))"

text \<open>
  Lines 427 and 428 (1072 and 1073): the iteration index back to zero and a new PTC
  factor, the initial one scaled by a random number from the configured range.
\<close>

definition restart_ptc :: "real \<Rightarrow> ('u, 'p, 's) newton_state \<Rightarrow> error + ('u, 'p, 's) newton_state" where
  "restart_ptc sample st =
     ebind (list_get (PTC_randadapt_range (slv st)) 0) (\<lambda>low.
     ebind (list_get (PTC_randadapt_range (slv st)) 1) (\<lambda>high.
     Inr (st\<lparr>it := 0, k_PTC := k_PTC_initial (slv st) * uniform low high sample\<rparr>)))"

text \<open>
  Lines 433 to 439 (1078 to 1084): the convergence check. The result says whether the
  loop is left by \<^verbatim>\<open>break\<close>.
\<close>

definition converge_or_continue ::
  "bool \<Rightarrow> ('u, 'p, 's) newton_state \<Rightarrow> bool \<times> ('u, 'p, 's) newton_state" where
  "converge_or_continue converged st =
     (if converged then
        (True, if divcont (slv st) = Some ''PTC''
               then st\<lparr>slv := (slv st)\<lparr>PTC := False\<rparr>, counter_adapt := 0\<rparr> else st)
      else (False, st))"

type_synonym norms = "(string \<times> real) list"

text \<open>
  Lines 389 to 412: the norms of this pass, the update of the unknowns by the increments
  and the increment of the iteration index.
\<close>

definition pass_norms :: "solver \<Rightarrow> ('u, 'p, 's) pass \<Rightarrow> norms \<times> norms" where
  "pass_norms sv ps =
     ([(''res_u'', res_u ps)] @ (if incompressible_2field sv then [(''res_p'', res_p ps)] else []),
      [(''inc_u'', inc_u ps)] @ (if incompressible_2field sv then [(''inc_p'', inc_p ps)] else []))"

definition advance ::
  "('u, 'p, 's) pass \<Rightarrow> ('u::real_vector, 'p::real_vector, 's) newton_state \<Rightarrow> ('u, 'p, 's) newton_state" where
  "advance ps st =
     (let st1 = st\<lparr>u := axpy 1 (del_u ps) (u st)\<rparr>;
          st2 = (if incompressible_2field (slv st1) then st1\<lparr>p := axpy 1 (del_p ps) (p st1)\<rparr>
                 else st1)
      in st2\<lparr>it := it st2 + 1\<rparr>)"

text \<open>
  Lines 418 to 431: with \<^verbatim>\<open>divergence_continue\<close> set to \<^verbatim>\<open>'PTC'\<close>, the iteration limit
  becomes 250 and a solver error (\<^verbatim>\<open>catch_solver_errors\<close>) switches PTC on, restarts
  the iteration, resets the unknowns to their start values and counts the restart.
\<close>

definition continue_on_divergence ::
  "(real \<Rightarrow> real \<Rightarrow> real \<Rightarrow> bool) \<Rightarrow> 'u \<Rightarrow> 'p \<Rightarrow> ('u, 'p, 's) pass \<Rightarrow>
   ('u::real_vector, 'p::real_vector, 's) newton_state \<Rightarrow> error + ('u, 'p, 's) newton_state" where
  "continue_on_divergence catch_solver_errors u_start p_start ps st =
     (if divcont (slv st) = Some ''PTC'' then
        (let st1 = st\<lparr>slv := (slv st)\<lparr>maxiter := 250\<rparr>\<rparr> in
         if catch_solver_errors (res_u ps) (inc_u ps) maxresval then
           ebind (restart_ptc (xi ps) (st1\<lparr>slv := (slv st1)\<lparr>PTC := True\<rparr>\<rparr>)) (\<lambda>st2.
           let st3 = st2\<lparr>u := reset_step (u st2) u_start\<rparr>;
               st4 = (if incompressible_2field (slv st3)
                      then st3\<lparr>p := reset_step (p st3) p_start\<rparr> else st3)
           in Inr (st4\<lparr>counter_adapt := counter_adapt st4 + 1\<rparr>))
         else Inr st1)
      else Inr st)"

text \<open>
  One pass of the loop of \<^verbatim>\<open>solver_nonlinear.newton\<close>. \<^verbatim>\<open>catch_solver_errors\<close> and
  \<^verbatim>\<open>check_converged\<close> belong to the solver utilities, outside this module, and are
  parameters. The solver type is only tested in the two-field branch.
\<close>

definition newton_pass ::
  "(real \<Rightarrow> real \<Rightarrow> real \<Rightarrow> bool) \<Rightarrow> (norms \<Rightarrow> norms \<Rightarrow> norms \<Rightarrow> bool) \<Rightarrow>
   'u \<Rightarrow> 'p \<Rightarrow> ('u, 'p, 's) pass \<Rightarrow> ('u::real_vector, 'p::real_vector, 's) newton_state \<Rightarrow>
   error + (bool \<times> ('u, 'p, 's) newton_state)" where
  "newton_pass catch_solver_errors check_converged u_start p_start ps st =
     (case raised ps of
        Some e \<Rightarrow> Inl e
      | None \<Rightarrow>
          if incompressible_2field (slv st) \<and> solvetype (slv st) \<noteq> ''direct''
             \<and> solvetype (slv st) \<noteq> ''iterative''
          then Inl NameError
          else
            ebind (ptc_update (res_u ps) (advance ps st)) (\<lambda>st1.
            ebind (continue_on_divergence catch_solver_errors u_start p_start ps st1) (\<lambda>st2.
            Inr (converge_or_continue
                   (check_converged (fst (pass_norms (slv st) ps)) (snd (pass_norms (slv st) ps))
                      (tolerances (slv st2)))
                   st2))))"

section \<open>The monolithic solver for coupled and constrained problems\<close>

text \<open>
  One pass of the loop of \<^verbatim>\<open>solver_nonlinear_constraint_monolithic.newton\<close>. The
  argument \<open>s\<close> says which vector of the store the caller passed as \<^verbatim>\<open>s\<close>.
  Lines 697 to 701: with Lagrange-multiplier coupling to a lumped model, the lumped
  model is first solved for \<^verbatim>\<open>s\<close> with the multipliers as coupling pressures.
\<close>

definition lagrange_flow0d :: "solver \<Rightarrow> bool" where
  "lagrange_flow0d sv =
     (coupling_type sv = ''monolithic_lagrange''
      \<and> (ptype sv = ''solid_flow0d'' \<or> ptype sv = ''fluid_flow0d''))"

definition inner_solve ::
  "vecref \<Rightarrow> ('u, 'p, 's) pass \<Rightarrow> ('u, 'p, 's) newton_state \<Rightarrow> error + ('u, 'p, 's) newton_state" where
  "inner_solve s ps st =
     (if lagrange_flow0d (slv st) then
        ebind (solve0D ps (store st s) (store st LM)) (\<lambda>s'. Inr (st\<lparr>store := (store st)(s := s')\<rparr>))
      else Inr st)"

text \<open>Lines 1023 to 1057: norms, update of every block, iteration index.\<close>

definition pass_norms_monolithic :: "solver \<Rightarrow> ('u, 'p, 's) pass \<Rightarrow> norms \<times> norms" where
  "pass_norms_monolithic sv ps =
     ([(''res_u'', res_u ps)] @ (if incompressible_2field sv then [(''res_p'', res_p ps)] else [])
        @ [(''res_0d'', res_0d ps)],
      [(''inc_u'', inc_u ps)] @ (if incompressible_2field sv then [(''inc_p'', inc_p ps)] else [])
        @ [(''inc_0d'', inc_0d ps)])"

definition advance_monolithic ::
  "vecref \<Rightarrow> ('u, 'p, 's) pass \<Rightarrow>
   ('u::real_vector, 'p::real_vector, 's::real_vector) newton_state \<Rightarrow> ('u, 'p, 's) newton_state" where
  "advance_monolithic s ps st =
     (let st1 = st\<lparr>u := axpy 1 (del_u ps) (u st)\<rparr>;
          st2 = (if incompressible_2field (slv st1) then st1\<lparr>p := axpy 1 (del_p ps) (p st1)\<rparr>
                 else st1);
          st3 = (if coupling_type (slv st2) = ''monolithic_direct''
                 then st2\<lparr>store := (store st2)(s := axpy 1 (del_s ps) (store st2 s))\<rparr> else st2);
          st4 = (if coupling_type (slv st3) = ''monolithic_lagrange''
                 then st3\<lparr>store := (store st3)(LM := axpy 1 (del_s ps) (store st3 LM))\<rparr> else st3)
      in st4\<lparr>it := it st4 + 1\<rparr>)"

text \<open>Lines 1063 to 1076: the restart on a solver error, as in the plain solver, with
  the reset of \<^verbatim>\<open>s\<close> to \<^verbatim>\<open>s_start\<close> after that of \<^verbatim>\<open>u\<close>.\<close>

definition continue_on_divergence_monolithic ::
  "(real \<Rightarrow> real \<Rightarrow> real \<Rightarrow> bool) \<Rightarrow> vecref \<Rightarrow> 'u \<Rightarrow> 's \<Rightarrow> 'p \<Rightarrow> ('u, 'p, 's) pass \<Rightarrow>
   ('u::real_vector, 'p::real_vector, 's::real_vector) newton_state \<Rightarrow>
   error + ('u, 'p, 's) newton_state" where
  "continue_on_divergence_monolithic catch_solver_errors s u_start s_start p_start ps st =
     (if divcont (slv st) = Some ''PTC'' then
        (let st1 = st\<lparr>slv := (slv st)\<lparr>maxiter := 250\<rparr>\<rparr> in
         if catch_solver_errors (res_u ps) (inc_u ps) maxresval then
           ebind (restart_ptc (xi ps) (st1\<lparr>slv := (slv st1)\<lparr>PTC := True\<rparr>\<rparr>)) (\<lambda>st2.
           let st3 = st2\<lparr>u := reset_step (u st2) u_start\<rparr>;
               st4 = st3\<lparr>store := (store st3)(s := reset_step (store st3 s) s_start)\<rparr>;
               st5 = (if incompressible_2field (slv st4)
                      then st4\<lparr>p := reset_step (p st4) p_start\<rparr> else st4)
           in Inr (st5\<lparr>counter_adapt := counter_adapt st5 + 1\<rparr>))
         else Inr st1)
      else Inr st)"

definition newton_pass_monolithic ::
  "(real \<Rightarrow> real \<Rightarrow> real \<Rightarrow> bool) \<Rightarrow> (norms \<Rightarrow> norms \<Rightarrow> norms \<Rightarrow> bool) \<Rightarrow>
   vecref \<Rightarrow> 'u \<Rightarrow> 's \<Rightarrow> 'p \<Rightarrow> ('u, 'p, 's) pass \<Rightarrow>
   ('u::real_vector, 'p::real_vector, 's::real_vector) newton_state \<Rightarrow>
   error + (bool \<times> ('u, 'p, 's) newton_state)" where
  "newton_pass_monolithic catch_solver_errors check_converged s u_start s_start p_start ps st =
     ebind (inner_solve s ps st) (\<lambda>st0.
     case raised ps of
       Some e \<Rightarrow> Inl e
     | None \<Rightarrow>
         if solvetype (slv st0) \<noteq> ''direct'' \<and> solvetype (slv st0) \<noteq> ''iterative''
         then Inl NameError
         else
           ebind (ptc_update (res_u ps) (advance_monolithic s ps st0)) (\<lambda>st1.
           ebind (continue_on_divergence_monolithic catch_solver_errors s u_start s_start p_start
                    ps st1) (\<lambda>st2.
           Inr (converge_or_continue
                  (check_converged (fst (pass_norms_monolithic (slv st) ps))
                     (snd (pass_norms_monolithic (slv st) ps)) (tolerances (slv st2)))
                  st2))))"

section \<open>Termination of the Newton loops\<close>

text \<open>
  A pass that does not leave the loop either counts a restart, or increments the
  iteration index without raising the iteration limit above the larger of its old value
  and 250. Restarts are bounded by \<open>max_adapt\<close>, so both loops terminate.
\<close>

definition progress :: "('u, 'p, 's) newton_state \<Rightarrow> ('u, 'p, 's) newton_state \<Rightarrow> bool" where
  "progress st st' =
     (counter_adapt st' = counter_adapt st + 1
      \<or> (counter_adapt st' = counter_adapt st \<and> it st' = it st + 1
          \<and> max (maxiter (slv st')) 250 \<le> max (maxiter (slv st)) 250))"

definition newton_order :: "(('u, 'p, 's) newton_state \<times> ('u, 'p, 's) newton_state) set" where
  "newton_order =
     inv_image (less_than <*lex*> less_than)
       (\<lambda>st. (max_adapt - counter_adapt st, nat (max (maxiter (slv st)) 250 - it st)))"

lemma ebind_Inl [simp]: "ebind (Inl e) k = Inl e"
  by (simp add: ebind_def)

lemma ebind_Inr [simp]: "ebind (Inr v) k = k v"
  by (simp add: ebind_def)

lemma ebind_eq_Inr: "ebind r k = Inr y \<longleftrightarrow> (\<exists>v. r = Inr v \<and> k v = Inr y)"
  by (cases r) simp_all

lemma advance_fields:
  "slv (advance ps st) = slv st \<and> it (advance ps st) = it st + 1
   \<and> counter_adapt (advance ps st) = counter_adapt st
   \<and> k_PTC (advance ps st) = k_PTC st
   \<and> struct_res_u_norm_last (advance ps st) = struct_res_u_norm_last st"
  by (simp add: advance_def Let_def)

lemma ptc_update_Inr:
  "ptc_update res st = Inr st' \<Longrightarrow>
     slv st' = slv st \<and> it st' = it st \<and> counter_adapt st' = counter_adapt st
     \<and> u st' = u st \<and> p st' = p st \<and> store st' = store st
     \<and> struct_res_u_norm_last st' = Some res"
  by (auto simp: ptc_update_def ebind_eq_Inr split: if_splits option.splits)

lemma restart_ptc_Inr:
  "restart_ptc sample st = Inr st' \<Longrightarrow>
     slv st' = slv st \<and> it st' = 0 \<and> counter_adapt st' = counter_adapt st
     \<and> u st' = u st \<and> p st' = p st \<and> store st' = store st
     \<and> struct_res_u_norm_last st' = struct_res_u_norm_last st"
  by (auto simp: restart_ptc_def ebind_eq_Inr)

lemma continue_on_divergence_Inr:
  assumes "continue_on_divergence cse u_start p_start ps st = Inr st'"
  shows "counter_adapt st' = counter_adapt st + 1
       \<or> (counter_adapt st' = counter_adapt st \<and> it st' = it st
          \<and> (maxiter (slv st') = maxiter (slv st) \<or> maxiter (slv st') = 250))"
proof (cases "divcont (slv st) = Some ''PTC'' \<and> cse (res_u ps) (inc_u ps) maxresval")
  case True
  with assms obtain st2 where
    r: "restart_ptc (xi ps) (st\<lparr>slv := (slv st)\<lparr>maxiter := 250, PTC := True\<rparr>\<rparr>) = Inr st2"
    and e: "counter_adapt st' = counter_adapt st2 + 1"
    by (auto simp: continue_on_divergence_def ebind_eq_Inr Let_def split: if_splits)
  from restart_ptc_Inr [OF r] e show ?thesis by simp
next
  case False
  with assms show ?thesis
    by (auto simp: continue_on_divergence_def Let_def split: if_splits)
qed

lemma converge_or_continue_False:
  "converge_or_continue c st = (False, st') \<Longrightarrow> st' = st \<and> \<not> c"
  by (auto simp: converge_or_continue_def split: if_splits)

lemma newton_pass_Inr:
  assumes "newton_pass cse chk u_start p_start ps st = Inr (broke, st')"
  shows "\<exists>st1 st2. ptc_update (res_u ps) (advance ps st) = Inr st1
           \<and> continue_on_divergence cse u_start p_start ps st1 = Inr st2
           \<and> (broke, st') = converge_or_continue
                (chk (fst (pass_norms (slv st) ps)) (snd (pass_norms (slv st) ps))
                   (tolerances (slv st2))) st2"
  using assms unfolding newton_pass_def
  by (auto simp: ebind_eq_Inr split: option.splits if_splits)

lemma newton_pass_progress:
  assumes "newton_pass cse chk u_start p_start ps st = Inr (False, st')"
  shows "progress st st'"
proof -
  from newton_pass_Inr [OF assms] obtain st1 st2 where
    a: "ptc_update (res_u ps) (advance ps st) = Inr st1"
    and b: "continue_on_divergence cse u_start p_start ps st1 = Inr st2"
    and c: "(False, st') = converge_or_continue
                (chk (fst (pass_norms (slv st) ps)) (snd (pass_norms (slv st) ps))
                   (tolerances (slv st2))) st2"
    by blast
  have st': "st' = st2" using converge_or_continue_False [OF c [symmetric]] by simp
  from ptc_update_Inr [OF a] advance_fields [of ps st]
  have s1: "slv st1 = slv st" "it st1 = it st + 1" "counter_adapt st1 = counter_adapt st"
    by simp_all
  from continue_on_divergence_Inr [OF b] s1 st' show ?thesis
    unfolding progress_def by auto
qed

lemma wf_newton_order: "wf newton_order"
  unfolding newton_order_def by (intro wf_inv_image wf_lex_prod wf_less_than)

lemma progress_newton_order:
  assumes "progress st st'" and "it st < maxiter (slv st)" and "counter_adapt st < max_adapt"
  shows "(st', st) \<in> newton_order"
  using assms unfolding progress_def newton_order_def
  by auto

text \<open>
  The loop of \<^verbatim>\<open>solver_nonlinear.newton\<close> (\<^verbatim>\<open>while ... else: raise RuntimeError\<close>):
  \<open>passes n\<close> is what the collaborators return in the \<open>n\<close>-th pass since the call.
\<close>

function newton_loop ::
  "(real \<Rightarrow> real \<Rightarrow> real \<Rightarrow> bool) \<Rightarrow> (norms \<Rightarrow> norms \<Rightarrow> norms \<Rightarrow> bool) \<Rightarrow>
   'u \<Rightarrow> 'p \<Rightarrow> (nat \<Rightarrow> ('u, 'p, 's) pass) \<Rightarrow> nat \<Rightarrow>
   ('u::real_vector, 'p::real_vector, 's) newton_state \<Rightarrow> error + ('u, 'p, 's) newton_state" where
  "newton_loop catch_solver_errors check_converged u_start p_start passes n st =
     (if it st < maxiter (slv st) \<and> counter_adapt st < max_adapt then
        (case newton_pass catch_solver_errors check_converged u_start p_start (passes n) st of
           Inl e \<Rightarrow> Inl e
         | Inr (broke, st') \<Rightarrow>
             if broke then Inr st'
             else newton_loop catch_solver_errors check_converged u_start p_start passes (Suc n) st')
      else Inl (RuntimeError (it st)))"
  by pat_completeness auto
termination
proof (relation "inv_image newton_order (\<lambda>(cse, chk, us, ps, passes, n, st). st)")
  show "wf (inv_image newton_order
          (\<lambda>(cse :: real \<Rightarrow> real \<Rightarrow> real \<Rightarrow> bool, chk :: norms \<Rightarrow> norms \<Rightarrow> norms \<Rightarrow> bool,
             us :: 'u::real_vector, ps :: 'p::real_vector, passes :: nat \<Rightarrow> ('u, 'p, 's) pass, n :: nat,
             st :: ('u, 'p, 's) newton_state). st))"
    by (intro wf_inv_image wf_newton_order)
next
  fix catch_solver_errors :: "real \<Rightarrow> real \<Rightarrow> real \<Rightarrow> bool"
    and check_converged :: "norms \<Rightarrow> norms \<Rightarrow> norms \<Rightarrow> bool"
    and u_start :: "'u::real_vector" and p_start :: "'p::real_vector" and passes :: "nat \<Rightarrow> ('u, 'p, 's) pass" and n
    and st :: "('u, 'p, 's) newton_state" and x2 x y
  assume guard: "it st < maxiter (slv st) \<and> counter_adapt st < max_adapt"
    and pass: "newton_pass catch_solver_errors check_converged u_start p_start (passes n) st = Inr x2"
    and x2: "(x, y) = x2" and nb: "\<not> x"
  have "progress st y"
    using newton_pass_progress [of catch_solver_errors check_converged u_start p_start "passes n" st y]
      pass x2 nb by simp
  then have "(y, st) \<in> newton_order"
    using guard by (simp add: progress_newton_order)
  then show "((catch_solver_errors, check_converged, u_start, p_start, passes, Suc n, y),
              (catch_solver_errors, check_converged, u_start, p_start, passes, n, st))
             \<in> inv_image newton_order (\<lambda>(cse, chk, us, ps, passes, n, st). st)"
    by simp
qed

lemma inner_solve_Inr:
  "inner_solve s ps st = Inr st' \<Longrightarrow>
     slv st' = slv st \<and> it st' = it st \<and> counter_adapt st' = counter_adapt st
     \<and> k_PTC st' = k_PTC st \<and> u st' = u st \<and> p st' = p st
     \<and> struct_res_u_norm_last st' = struct_res_u_norm_last st"
  by (auto simp: inner_solve_def ebind_eq_Inr split: if_splits)

lemma advance_monolithic_fields:
  "slv (advance_monolithic s ps st) = slv st \<and> it (advance_monolithic s ps st) = it st + 1
   \<and> counter_adapt (advance_monolithic s ps st) = counter_adapt st
   \<and> k_PTC (advance_monolithic s ps st) = k_PTC st
   \<and> struct_res_u_norm_last (advance_monolithic s ps st) = struct_res_u_norm_last st"
  by (simp add: advance_monolithic_def Let_def)

lemma continue_on_divergence_monolithic_Inr:
  assumes "continue_on_divergence_monolithic cse s u_start s_start p_start ps st = Inr st'"
  shows "counter_adapt st' = counter_adapt st + 1
       \<or> (counter_adapt st' = counter_adapt st \<and> it st' = it st
          \<and> (maxiter (slv st') = maxiter (slv st) \<or> maxiter (slv st') = 250))"
proof (cases "divcont (slv st) = Some ''PTC'' \<and> cse (res_u ps) (inc_u ps) maxresval")
  case True
  with assms obtain st2 where
    r: "restart_ptc (xi ps) (st\<lparr>slv := (slv st)\<lparr>maxiter := 250, PTC := True\<rparr>\<rparr>) = Inr st2"
    and e: "counter_adapt st' = counter_adapt st2 + 1"
    by (auto simp: continue_on_divergence_monolithic_def ebind_eq_Inr Let_def split: if_splits)
  from restart_ptc_Inr [OF r] e show ?thesis by simp
next
  case False
  with assms show ?thesis
    by (auto simp: continue_on_divergence_monolithic_def Let_def split: if_splits)
qed

lemma newton_pass_monolithic_Inr:
  assumes "newton_pass_monolithic cse chk s u_start s_start p_start ps st = Inr (broke, st')"
  shows "\<exists>st0 st1 st2. inner_solve s ps st = Inr st0
           \<and> ptc_update (res_u ps) (advance_monolithic s ps st0) = Inr st1
           \<and> continue_on_divergence_monolithic cse s u_start s_start p_start ps st1 = Inr st2
           \<and> (broke, st') = converge_or_continue
                (chk (fst (pass_norms_monolithic (slv st) ps))
                   (snd (pass_norms_monolithic (slv st) ps)) (tolerances (slv st2))) st2"
  using assms unfolding newton_pass_monolithic_def
  by (auto simp: ebind_eq_Inr split: option.splits if_splits)

lemma newton_pass_monolithic_progress:
  assumes "newton_pass_monolithic cse chk s u_start s_start p_start ps st = Inr (False, st')"
  shows "progress st st'"
proof -
  from newton_pass_monolithic_Inr [OF assms] obtain st0 st1 st2 where
    i: "inner_solve s ps st = Inr st0"
    and a: "ptc_update (res_u ps) (advance_monolithic s ps st0) = Inr st1"
    and b: "continue_on_divergence_monolithic cse s u_start s_start p_start ps st1 = Inr st2"
    and c: "(False, st') = converge_or_continue
                (chk (fst (pass_norms_monolithic (slv st) ps))
                   (snd (pass_norms_monolithic (slv st) ps)) (tolerances (slv st2))) st2"
    by blast
  have st': "st' = st2" using converge_or_continue_False [OF c [symmetric]] by simp
  from ptc_update_Inr [OF a] advance_monolithic_fields [of s ps st0] inner_solve_Inr [OF i]
  have s1: "slv st1 = slv st" "it st1 = it st + 1" "counter_adapt st1 = counter_adapt st"
    by simp_all
  from continue_on_divergence_monolithic_Inr [OF b] s1 st' show ?thesis
    unfolding progress_def by auto
qed

function newton_loop_monolithic ::
  "(real \<Rightarrow> real \<Rightarrow> real \<Rightarrow> bool) \<Rightarrow> (norms \<Rightarrow> norms \<Rightarrow> norms \<Rightarrow> bool) \<Rightarrow>
   vecref \<Rightarrow> 'u \<Rightarrow> 's \<Rightarrow> 'p \<Rightarrow> (nat \<Rightarrow> ('u, 'p, 's) pass) \<Rightarrow> nat \<Rightarrow>
   ('u::real_vector, 'p::real_vector, 's::real_vector) newton_state \<Rightarrow>
   error + ('u, 'p, 's) newton_state" where
  "newton_loop_monolithic catch_solver_errors check_converged s u_start s_start p_start passes n st =
     (if it st < maxiter (slv st) \<and> counter_adapt st < max_adapt then
        (case newton_pass_monolithic catch_solver_errors check_converged s u_start s_start p_start
                (passes n) st of
           Inl e \<Rightarrow> Inl e
         | Inr (broke, st') \<Rightarrow>
             if broke then Inr st'
             else newton_loop_monolithic catch_solver_errors check_converged s u_start s_start
                    p_start passes (Suc n) st')
      else Inl (RuntimeError (it st)))"
  by pat_completeness auto
termination
proof (relation "inv_image newton_order (\<lambda>(cse, chk, s, us, ss, ps, passes, n, st). st)")
  show "wf (inv_image newton_order
          (\<lambda>(cse :: real \<Rightarrow> real \<Rightarrow> real \<Rightarrow> bool, chk :: norms \<Rightarrow> norms \<Rightarrow> norms \<Rightarrow> bool,
             s :: vecref, us :: 'u::real_vector, ss :: 's::real_vector, ps :: 'p::real_vector,
             passes :: nat \<Rightarrow> ('u, 'p, 's) pass, n :: nat,
             st :: ('u, 'p, 's) newton_state). st))"
    by (intro wf_inv_image wf_newton_order)
next
  fix catch_solver_errors :: "real \<Rightarrow> real \<Rightarrow> real \<Rightarrow> bool"
    and check_converged :: "norms \<Rightarrow> norms \<Rightarrow> norms \<Rightarrow> bool"
    and s :: vecref
    and u_start :: "'u::real_vector" and s_start :: "'s::real_vector"
    and p_start :: "'p::real_vector" and passes :: "nat \<Rightarrow> ('u, 'p, 's) pass" and n
    and st :: "('u, 'p, 's) newton_state" and x2 x y
  assume guard: "it st < maxiter (slv st) \<and> counter_adapt st < max_adapt"
    and pass: "newton_pass_monolithic catch_solver_errors check_converged s u_start s_start p_start
                 (passes n) st = Inr x2"
    and x2: "(x, y) = x2" and nb: "\<not> x"
  have "progress st y"
    using newton_pass_monolithic_progress
      [of catch_solver_errors check_converged s u_start s_start p_start "passes n" st y]
      pass x2 nb by simp
  then have "(y, st) \<in> newton_order"
    using guard by (simp add: progress_newton_order)
  then show "((catch_solver_errors, check_converged, s, u_start, s_start, p_start, passes, Suc n, y),
              (catch_solver_errors, check_converged, s, u_start, s_start, p_start, passes, n, st))
             \<in> inv_image newton_order (\<lambda>(cse, chk, s, us, ss, ps, passes, n, st). st)"
    by simp
qed

text \<open>
  The two methods: the start vectors are copies of the unknowns at the call, the
  iteration index and the restart counter start at zero, the PTC factor at its initial
  value.
\<close>

definition newton ::
  "(real \<Rightarrow> real \<Rightarrow> real \<Rightarrow> bool) \<Rightarrow> (norms \<Rightarrow> norms \<Rightarrow> norms \<Rightarrow> bool) \<Rightarrow>
   (nat \<Rightarrow> ('u, 'p, 's) pass) \<Rightarrow> solver \<Rightarrow> 'u::real_vector \<Rightarrow> 'p::real_vector \<Rightarrow> (vecref \<Rightarrow> 's) \<Rightarrow>
   error + ('u, 'p, 's) newton_state" where
  "newton catch_solver_errors check_converged passes sv u0 p0 store0 =
     newton_loop catch_solver_errors check_converged u0 p0 passes 0
       \<lparr>slv = sv, u = u0, p = p0, store = store0, it = 0, k_PTC = k_PTC_initial sv,
        counter_adapt = 0, struct_res_u_norm_last = None\<rparr>"

definition newton_monolithic ::
  "(real \<Rightarrow> real \<Rightarrow> real \<Rightarrow> bool) \<Rightarrow> (norms \<Rightarrow> norms \<Rightarrow> norms \<Rightarrow> bool) \<Rightarrow>
   (nat \<Rightarrow> ('u, 'p, 's) pass) \<Rightarrow> solver \<Rightarrow> 'u::real_vector \<Rightarrow> 'p::real_vector \<Rightarrow>
   vecref \<Rightarrow> (vecref \<Rightarrow> 's::real_vector) \<Rightarrow> error + ('u, 'p, 's) newton_state" where
  "newton_monolithic catch_solver_errors check_converged passes sv u0 p0 s store0 =
     newton_loop_monolithic catch_solver_errors check_converged s u0 (store0 s) p0 passes 0
       \<lparr>slv = sv, u = u0, p = p0, store = store0, it = 0, k_PTC = k_PTC_initial sv,
        counter_adapt = 0, struct_res_u_norm_last = None\<rparr>"

section \<open>Well-formed inputs\<close>

text \<open>
  \<open>owns v i\<close>: this process can read and write entry \<open>i\<close> of \<open>v\<close>. \<open>shape\<close>: the kind
  of a vector, its first index and its length. \<open>square n K\<close>: \<open>K\<close> has \<open>n\<close> rows of \<open>n\<close>
  entries. \<open>filled n i j g T\<close>: the row-major loops over an \<open>n\<close> by \<open>n\<close> table have
  written \<open>g\<close> into every slot before \<open>(i, j)\<close>. \<open>fires\<close>: the guard under which
  \<^verbatim>\<open>induce_perturbation\<close> acts. \<open>solvetype_known\<close>: the solver type is one the
  constructor accepts. \<open>norm_bound\<close>: the previous residual norm is bound once a pass
  has run.
\<close>

definition owns :: "vec \<Rightarrow> nat \<Rightarrow> bool" where
  "owns v i = (case v of Ndarray xs \<Rightarrow> i < length xs
                       | PETScVec lo xs \<Rightarrow> lo \<le> i \<and> i < lo + length xs)"

definition shape :: "vec \<Rightarrow> bool \<times> nat \<times> nat" where
  "shape v = (case v of Ndarray xs \<Rightarrow> (True, 0, length xs)
                      | PETScVec lo xs \<Rightarrow> (False, lo, length xs))"

definition square :: "nat \<Rightarrow> 'a list list \<Rightarrow> bool" where
  "square n K = (length K = n \<and> list_all (\<lambda>row. length row = n) K)"

definition filled :: "nat \<Rightarrow> nat \<Rightarrow> nat \<Rightarrow> (nat \<Rightarrow> nat \<Rightarrow> 'a) \<Rightarrow> 'a list list \<Rightarrow> bool" where
  "filled n i j g T =
     (\<forall>i'<n. \<forall>j'<n. (i' < i \<or> (i' = i \<and> j' < j)) \<longrightarrow>
        (i' < length T \<and> j' < length (T ! i') \<and> T ! i' ! j' = g i' j'))"

definition fires :: "'e model \<Rightarrow> int \<Rightarrow> int \<Rightarrow> bool" where
  "fires m cycle induce_pert_after_cycl =
     (induce_pert_after_cycl > 0 \<and> \<not> have_induced_pert m \<and> cycle > induce_pert_after_cycl)"

definition solvetype_known :: "solver \<Rightarrow> bool" where
  "solvetype_known sv = (solvetype sv = ''direct'' \<or> solvetype sv = ''iterative'')"

definition norm_bound :: "('u, 'p, 's) newton_state \<Rightarrow> bool" where
  "norm_bound st = (it st < 1 \<or> struct_res_u_norm_last st \<noteq> None)"

text \<open>
  \<open>entry_value v i\<close>: the entry an owned index holds. \<open>initial_lines vm v\<close>: the lines
  of an initial-condition file for the name-to-index map \<open>vm\<close> and the vector \<open>v\<close>.
\<close>

definition entry_value :: "vec \<Rightarrow> nat \<Rightarrow> real" where
  "entry_value v i = (case vec_get v i of Inr y \<Rightarrow> y | Inl e \<Rightarrow> 0)"

definition initial_lines :: "(string \<times> nat) list \<Rightarrow> vec \<Rightarrow> (string \<times> real) list" where
  "initial_lines vm v = map (\<lambda>(name, idx). (name @ ''_0'', entry_value v idx)) vm"

section \<open>A one-equation circulation and a diverging pass\<close>

text \<open>
  Concrete collaborators, on which the model runs: symbolic expressions over numbers and
  named symbols with their derivative and their compilation, a circulation model with
  the single unknown \<open>q\<close>, rate part \<open>q * q\<close> and algebraic part \<open>R_vin_l_min * q\<close>, and
  solver utilities that flag a residual norm at or above the maximal value and accept a
  pass when every norm is within its tolerance.
\<close>

datatype sym = Num real | Symb string | Add sym sym | Mul sym sym

instantiation sym :: zero
begin
definition zero_sym :: sym where "zero_sym = Num 0"
instance ..
end

fun sym_diff :: "sym \<Rightarrow> sym \<Rightarrow> sym" where
  "sym_diff (Num a) x = Num 0"
| "sym_diff (Symb v) x = (if x = Symb v then Num 1 else Num 0)"
| "sym_diff (Add a b) x = Add (sym_diff a x) (sym_diff b x)"
| "sym_diff (Mul a b) x = Add (Mul (sym_diff a x) b) (Mul a (sym_diff b x))"

fun sym_eval :: "(sym \<times> real) list \<Rightarrow> sym \<Rightarrow> real" where
  "sym_eval env (Num a) = a"
| "sym_eval env (Symb v) = (case map_of env (Symb v) of Some y \<Rightarrow> y | None \<Rightarrow> 0)"
| "sym_eval env (Add a b) = sym_eval env a + sym_eval env b"
| "sym_eval env (Mul a b) = sym_eval env a * sym_eval env b"

definition sym_lambdify :: "sym list \<times> sym list \<times> sym \<times> sym list \<Rightarrow> sym \<Rightarrow> callable" where
  "sym_lambdify args e =
     (case args of (xs, cs, ts, fs) \<Rightarrow>
        (\<lambda>x c t fnc. sym_eval (zip xs x @ zip cs c @ [(ts, t)] @ zip fs fnc) e))"

definition loop_equations :: "sym model \<Rightarrow> sym model" where
  "loop_equations m =
     m\<lparr>x_sym := [Symb ''q''], t_sym := Symb ''t'',
       df_sym := [Mul (Symb ''q'') (Symb ''q'')],
       f_sym := [Mul (Num (R_vin_l_min m)) (Symb ''q'')],
       a_sym := [Symb ''q''],
       varmap := [(''q'', 0)]\<rparr>"

definition loop_collaborators :: "sym collaborators" where
  "loop_collaborators =
     \<lparr>sp_diff = sym_diff, sp_lambdify = sym_lambdify,
      setup_arrays = (\<lambda>m. Inr (set_solve_arrays (m\<lparr>numdof := 1\<rparr>))),
      equation_map = (\<lambda>m. Inr (loop_equations m)),
      set_prescribed_elastance = (\<lambda>m ch. Inl ValueError)\<rparr>"

definition loop_model :: "sym model" where
  "loop_model =
     loop_equations (set_solve_arrays
       \<lparr>T_cycl = 1, theta = 1 / 2, have_induced_pert = False, comm = Some 0, numdof = 1,
        R_vin_l_max = 1, R_vin_l_min = 2, R_vout_l_max = 1, R_vout_l_min = 1,
        x_sym = [], c_sym = [], t_sym = Symb ''t'', fnc_sym = [],
        df_sym = [], f_sym = [], a_sym = [], Kdf_sym = [], Kf_sym = [],
        df_fn = [], f_fn = [], a_fn = [], Kdf_fn = [], Kf_fn = [],
        varmap = [],
        chmodels = [(''lv'', ''0D_elast''), (''rv'', ''0D_elast''),
                    (''la'', ''0D_elast''), (''ra'', ''0D_elast'')],
        cq = ''volume'', switch_V = [1, 1, 1, 1], switch_p = [0, 0, 0, 0], si = [0, 0, 0, 0],
        elastarrays = [[], [], [], []], eqtimearray = [],
        v_ids = [], c_ids = [], vindex_ch = [0, 0, 0, 0], cindex_ch = [0, 0, 0, 0],
        cname_prfx = [''V'', ''V'', ''V'', ''V''], vname_prfx = [''p'', ''p'', ''p'', ''p'']\<rparr>)"

definition loop_diffed :: "sym model" where
  "loop_diffed = loop_model\<lparr>
     Kdf_sym := [[Add (Mul (Num 1) (Symb ''q'')) (Mul (Symb ''q'') (Num 1))]],
     Kf_sym := [[Add (Mul (Num 0) (Symb ''q'')) (Mul (Num 2) (Num 1))]]\<rparr>"

definition loop_compiled :: "sym model" where
  "loop_compiled = loop_diffed\<lparr>
     df_fn := [Some (sym_lambdify (arg_syms loop_model) (Mul (Symb ''q'') (Symb ''q'')))],
     f_fn := [Some (sym_lambdify (arg_syms loop_model) (Mul (Num 2) (Symb ''q'')))],
     a_fn := [Some (sym_lambdify (arg_syms loop_model) (Symb ''q''))],
     Kdf_fn := [[Some (sym_lambdify (arg_syms loop_model)
                  (Add (Mul (Num 1) (Symb ''q'')) (Mul (Symb ''q'') (Num 1))))]],
     Kf_fn := [[Some (sym_lambdify (arg_syms loop_model)
                  (Add (Mul (Num 0) (Symb ''q'')) (Mul (Num 2) (Num 1))))]]\<rparr>"

definition jacobian_at ::
  "real \<Rightarrow> real \<Rightarrow> sym model \<Rightarrow> error + (vec option \<times> vec option \<times> matrix option \<times> vec option)" where
  "jacobian_at q dt m = evaluate m (\<lambda>v. []) (Ndarray [q]) dt 0 None None (Some [[0]]) [] None []"

definition large_residual :: "real \<Rightarrow> real \<Rightarrow> real \<Rightarrow> bool" where
  "large_residual resnorm incnorm maxval = (resnorm \<ge> maxval)"

definition within_tolerances :: "norms \<Rightarrow> norms \<Rightarrow> norms \<Rightarrow> bool" where
  "within_tolerances resnorms incnorms tol =
     list_all (\<lambda>(k, v). case map_of tol k of Some t \<Rightarrow> v \<le> t | None \<Rightarrow> False)
       (resnorms @ incnorms)"

definition lagrange_solver :: solver where
  "lagrange_solver =
     \<lparr>maxiter = 25, divcont = Some ''PTC'', PTC = False, k_PTC_initial = 1 / 10,
      PTC_randadapt_range = [85 / 100, 135 / 100], solvetype = ''direct'',
      tolerances = [(''res_u'', 1 / 10 ^ 8), (''inc_u'', 1 / 10 ^ 8),
                    (''res_0d'', 1 / 10 ^ 8), (''inc_0d'', 1 / 10 ^ 8)],
      incompressible_2field = False, coupling_type = ''monolithic_lagrange'',
      ptype = ''solid_flow0d''\<rparr>"

definition diverged_pass :: "(real, real, real) pass" where
  "diverged_pass =
     \<lparr>res_u = 10 ^ 17, inc_u = 1, res_p = 0, inc_p = 0, res_0d = 1, inc_0d = 1,
      del_u = 5, del_p = 0, del_s = 3, xi = 1 / 2, solve0D = (\<lambda>s lm. Inr s), raised = None\<rparr>"

definition first_state :: "(real, real, real) newton_state" where
  "first_state =
     \<lparr>slv = lagrange_solver, u = 1, p = 0,
      store = (\<lambda>r. case r of StateVec \<Rightarrow> 2 | LM \<Rightarrow> 7),
      it = 0, k_PTC = 1 / 10, counter_adapt = 0, struct_res_u_norm_last = None\<rparr>"

definition damped_state :: "(real, real, real) newton_state" where
  "damped_state =
     \<lparr>slv = lagrange_solver\<lparr>PTC := True\<rparr>, u = 1, p = 0,
      store = (\<lambda>r. case r of StateVec \<Rightarrow> 2 | LM \<Rightarrow> 7),
      it = 1, k_PTC = 1 / 10, counter_adapt = 0, struct_res_u_norm_last = Some 2\<rparr>"

definition growing_pass :: "(real, real, real) pass" where
  "growing_pass = diverged_pass\<lparr>res_u := 4\<rparr>"

text \<open>
  A reading of the decimal text that is off by one unit in the seventeenth significant
  digit.
\<close>

definition near_exact :: "real \<Rightarrow> real" where
  "near_exact v = v + v / 10 ^ 17"

lemmas run_simps =
  for_range_def set_stiffness_def stiffness_entry_def lambdify_expressions_def
  lambdify_equation_def lambdify_entry_def mat_set_def mat_get_def list_get_def list_set_def
  arg_syms_def set_solve_arrays_def loop_equations_def loop_model_def zero_sym_def
  upt_rec [of 0] Let_def

lemmas perturbation_simps =
  induce_perturbation_def perturb_def rebuild_def rebuild_recompile_rediff_def
  loop_collaborators_def set_chamber_interfaces_def chamber_interface_def dict_get_def
  set_switches_def run_simps

lemmas evaluate_simps =
  jacobian_at_def evaluate_def squeeze_def on_request_def fill_K_def K_entry_def call_def
  py_truediv_def sym_lambdify_def

lemmas pass_simps =
  newton_pass_def newton_pass_monolithic_def inner_solve_def lagrange_flow0d_def
  advance_def advance_monolithic_def ptc_update_def continue_on_divergence_def
  continue_on_divergence_monolithic_def restart_ptc_def converge_or_continue_def
  pass_norms_def pass_norms_monolithic_def reset_step_def axpy_def axpby_def uniform_def
  maxresval_def list_get_def Let_def large_residual_def within_tolerances_def

lemma loop_model_numdof: "numdof loop_model = 1"
  by (simp add: run_simps)

lemma loop_model_differentiated: "set_stiffness sym_diff loop_model = Inr loop_diffed"
  by (simp add: run_simps loop_diffed_def)

lemma loop_model_compiled: "lambdify_expressions sym_lambdify loop_diffed = Inr loop_compiled"
  by (simp add: run_simps loop_diffed_def loop_compiled_def)

lemma loop_model_jacobian:
  "evaluate loop_compiled (\<lambda>v. []) (Ndarray [3]) (1 / 2) 0 None None (Some [[0]]) [] None []
     = Inr (None, None, Some [[13]], None)"
  by (simp add: evaluate_def squeeze_def on_request_def fill_K_def K_entry_def call_def
      py_truediv_def sym_lambdify_def run_simps loop_diffed_def loop_compiled_def)

lemma loop_fires: "fires loop_model 2 1"
  by (simp add: fires_def run_simps)

lemma loop_perturbation_runs:
  "\<exists>m'. induce_perturbation loop_collaborators loop_model ''ms'' 2 1 = Inr m'"
  by (simp add: perturbation_simps)

lemma growing_pass_runs:
  "\<exists>st'. newton_pass large_residual within_tolerances 1 0 growing_pass damped_state
           = Inr (False, st')"
  by (simp add: pass_simps lagrange_solver_def diverged_pass_def growing_pass_def damped_state_def)

lemma growing_pass_monolithic_runs:
  "\<exists>st'. newton_pass_monolithic large_residual within_tolerances StateVec 1 2 0 growing_pass
           damped_state = Inr (False, st')"
  by (simp add: pass_simps lagrange_solver_def diverged_pass_def growing_pass_def damped_state_def)

lemma near_exact_precise: "\<forall>v. \<bar>near_exact v - v\<bar> \<le> \<bar>v\<bar> / 10 ^ 16"
proof
  fix v :: real
  have "\<bar>near_exact v - v\<bar> = \<bar>v\<bar> / 10 ^ 17"
    by (simp add: near_exact_def)
  also have "\<dots> \<le> \<bar>v\<bar> / 10 ^ 16"
    by (rule divide_left_mono) simp_all
  finally show "\<bar>near_exact v - v\<bar> \<le> \<bar>v\<bar> / 10 ^ 16" .
qed

lemma loop_model_written:
  "\<exists>fs'. write_initial loop_model (\<lambda>v. []) ''out'' (Ndarray [4]) (Ndarray [5]) Map.empty = Inr fs'"
  by (simp add: write_initial_def is_ndarray_def vec_get_def run_simps)

lemma diverged_pass_runs:
  "\<exists>st'. newton_pass large_residual within_tolerances 1 0 diverged_pass damped_state
           = Inr (False, st') \<and> k_PTC st' = 11 / 100"
  by (simp add: pass_simps lagrange_solver_def diverged_pass_def damped_state_def)

lemma diverged_pass_monolithic_runs:
  "\<exists>st'. newton_pass_monolithic large_residual within_tolerances StateVec 1 2 0 diverged_pass
           damped_state = Inr (False, st') \<and> k_PTC st' = 11 / 100"
  by (simp add: pass_simps lagrange_solver_def diverged_pass_def damped_state_def)

lemma zero_factor_runs:
  "\<exists>st'. newton_pass large_residual within_tolerances 1 0 growing_pass
           (damped_state\<lparr>k_PTC := 0\<rparr>) = Inr (False, st') \<and> k_PTC st' = 0"
  by (simp add: pass_simps lagrange_solver_def diverged_pass_def growing_pass_def damped_state_def)

section \<open>Loops that run to their end\<close>

lemma for_each_append: "for_each (xs @ ys) body s = ebind (for_each xs body s) (for_each ys body)"
  by (induction xs arbitrary: s) (simp_all add: ebind_def split: sum.splits)

lemma for_each_single: "for_each [x] body = body x"
  by (rule ext) (simp add: ebind_def split: sum.splits)

lemma for_range_Suc:
  "a \<le> b \<Longrightarrow> for_range a (Suc b) body s = ebind (for_range a b body s) (body b)"
  by (simp add: for_range_def for_each_append for_each_single)

lemma for_range_empty [simp]: "for_range a a body s = Inr s"
  by (simp add: for_range_def)

lemma for_range_invariant:
  assumes init: "I a s"
    and le: "a \<le> b"
    and step: "\<And>i s. a \<le> i \<Longrightarrow> i < b \<Longrightarrow> I i s \<Longrightarrow> \<exists>s'. body i s = Inr s' \<and> I (Suc i) s'"
  shows "\<exists>s'. for_range a b body s = Inr s' \<and> I b s'"
  using le step
proof (induction b)
  case 0
  then show ?case using init by simp
next
  case (Suc b)
  show ?case
  proof (cases "a = Suc b")
    case True
    then show ?thesis using init by simp
  next
    case False
    then have le': "a \<le> b" using Suc.prems(1) by simp
    have "\<exists>s'. for_range a b body s = Inr s' \<and> I b s'"
      using Suc.IH [OF le'] Suc.prems(2) by simp
    then obtain s1 where s1: "for_range a b body s = Inr s1" "I b s1" by blast
    obtain s2 where "body b s1 = Inr s2" "I (Suc b) s2"
      using Suc.prems(2) [OF le' _ s1(2)] by auto
    then show ?thesis using s1 le' by (simp add: for_range_Suc)
  qed
qed

lemma for_range_partial:
  assumes run: "for_range a b body s = Inr s'"
    and init: "I a s"
    and le: "a \<le> b"
    and step: "\<And>i s s'. a \<le> i \<Longrightarrow> i < b \<Longrightarrow> I i s \<Longrightarrow> body i s = Inr s' \<Longrightarrow> I (Suc i) s'"
  shows "I b s'"
  using le run step
proof (induction b arbitrary: s')
  case 0
  then show ?case using init by simp
next
  case (Suc b)
  show ?case
  proof (cases "a = Suc b")
    case True
    then show ?thesis using init Suc.prems(2) by simp
  next
    case False
    then have le': "a \<le> b" using Suc.prems(1) by simp
    from Suc.prems(2) le' obtain s1 where s1: "for_range a b body s = Inr s1" "body b s1 = Inr s'"
      by (auto simp: for_range_Suc ebind_eq_Inr)
    have "I b s1" using Suc.IH [OF le' s1(1)] Suc.prems(3) by simp
    then show ?thesis using Suc.prems(3) [OF le' _ _ s1(2)] by simp
  qed
qed

section \<open>Properties of the elastance function\<close>

text \<open>
  Claim C8. For an activation duration \<open>act_dur > 0\<close>, \<open>E_t\<close> returns exactly \<open>E_min\<close>
  at every time before \<open>t0\<close> and at every time after \<open>t0 + act_dur\<close>, and returns
  \<open>E_min + E_A\<close> at the middle of the activation window, \<open>t0 + act_dur / 2\<close>.
\<close>

theorem E_t_baseline_and_peak:
  assumes "act_dur > 0"
  shows "(t < t0 \<longrightarrow> E_t E_A E_min t t0 act_dur = Inr E_min)
       \<and> (t > t0 + act_dur \<longrightarrow> E_t E_A E_min t t0 act_dur = Inr E_min)
       \<and> E_t E_A E_min (t0 + act_dur / 2) t0 act_dur = Inr (E_min + E_A)"
proof -
  have peak: "2 * pi * (t0 + act_dur / 2 - t0) / act_dur = pi"
    using assms by (simp add: field_simps)
  have inside: "t0 + act_dur / 2 \<ge> t0 \<and> t0 + act_dur / 2 \<le> t0 + act_dur"
    using assms by simp
  have "E_t E_A E_min (t0 + act_dur / 2) t0 act_dur = Inr (E_min + E_A)"
    unfolding E_t_def py_truediv_def using assms inside peak by simp
  moreover have "t < t0 \<longrightarrow> E_t E_A E_min t t0 act_dur = Inr E_min"
    by (simp add: E_t_def)
  moreover have "t > t0 + act_dur \<longrightarrow> E_t E_A E_min t t0 act_dur = Inr E_min"
    by (simp add: E_t_def)
  ultimately show ?thesis by blast
qed

theorem E_t_baseline_and_peak_witness:
  "E_t 3 2 (1/2) 1 4 = Inr 2 \<and> E_t 3 2 6 1 4 = Inr 2 \<and> E_t 3 2 (1 + 4 / 2) 1 4 = Inr (2 + 3)"
  using E_t_baseline_and_peak [of 4 "1/2" 1 3 2] E_t_baseline_and_peak [of 4 6 1 3 2]
  by simp

section \<open>Prescribed variables enforce an identity row\<close>

lemma mat_set_ok:
  "i < length K \<Longrightarrow> j < length (K ! i) \<Longrightarrow> mat_set K i j v = Inr (K[i := (K ! i)[j := v]])"
  by (simp add: mat_set_def list_get_def list_set_def)

lemma square_row: "square n K \<Longrightarrow> i < n \<Longrightarrow> length (K ! i) = n"
  by (simp add: square_def list_all_length)

lemma square_update:
  "square n K \<Longrightarrow> i < n \<Longrightarrow> square n (K[i := (K ! i)[j := v]])"
  by (auto simp: square_def list_all_length nth_list_update)

lemma prescribed_row_ok:
  assumes sq: "square n K" and i: "i < n" and idx: "idx = int i"
  shows "\<exists>K'. prescribed_row n idx i K = Inr K' \<and> square n K'
           \<and> K' ! i = (replicate n 0)[i := 1] \<and> (\<forall>k<n. k \<noteq> i \<longrightarrow> K' ! k = K ! k)"
proof -
  let ?I = "\<lambda>j K'. square n K' \<and> (\<forall>k<n. k \<noteq> i \<longrightarrow> K' ! k = K ! k)
                \<and> (\<forall>l<j. K' ! i ! l = (if l = i then 1 else 0))"
  have "\<exists>K'. for_range 0 n
          (\<lambda>j K'. if int j \<noteq> idx then mat_set K' i j 0 else mat_set K' i j 1) K = Inr K'
          \<and> ?I n K'"
  proof (rule for_range_invariant [where I = "?I"])
    show "?I 0 K" using sq by simp
    show "0 \<le> n" by simp
    fix j M assume j: "0 \<le> j" "j < n" and inv: "?I j M"
    have sqM: "square n M" using inv by simp
    have len: "i < length M" "j < length (M ! i)"
      using sqM i j square_row [OF sqM i] by (simp_all add: square_def)
    let ?v = "(if j = i then 1 else 0) :: real"
    let ?M' = "M[i := (M ! i)[j := ?v]]"
    have step: "(if int j \<noteq> idx then mat_set M i j 0 else mat_set M i j 1) = Inr ?M'"
      using len idx by (simp add: mat_set_ok)
    have "?I (Suc j) ?M'"
      using inv len i by (auto simp: square_update nth_list_update less_Suc_eq)
    with step
    show "\<exists>s'. (if int j \<noteq> idx then mat_set M i j 0 else mat_set M i j 1) = Inr s'
            \<and> ?I (Suc j) s'"
      by blast
  qed
  then obtain K' where run: "prescribed_row n idx i K = Inr K'" and inv: "?I n K'"
    unfolding prescribed_row_def by blast
  have "K' ! i = (replicate n 0)[i := 1]"
  proof (rule nth_equalityI)
    have leni: "length (K' ! i) = n"
      using inv i by (simp add: square_row)
    show "length (K' ! i) = length ((replicate n (0::real))[i := 1])"
      using leni by simp
    fix l assume "l < length (K' ! i)"
    then have "l < n" using leni by simp
    then show "K' ! i ! l = (replicate n 0)[i := 1] ! l"
      using inv i by (simp add: nth_list_update)
  qed
  with run inv show ?thesis by blast
qed

lemma vec_get_index_range:
  assumes "vec_get x i = Inr xv"
  shows "\<exists>xs xe. index_range x x = Inr (xs, xe) \<and> xs \<le> i \<and> i < xe"
  using assms
  by (cases x) (auto simp: vec_get_def index_range_def getOwnershipRange_def list_get_def
      split: if_splits)

lemma vec_set_owned:
  assumes "owns r i"
  shows "\<exists>r'. vec_set r i a = Inr r' \<and> vec_get r' i = Inr a \<and> owns r' i"
  using assms
  by (cases r) (auto simp: owns_def vec_set_def vec_get_def list_set_def list_get_def)

text \<open>
  Claim C2. For a state vector \<open>x\<close>, a residual \<open>r\<close>, a \<open>numdof\<close> by \<open>numdof\<close> matrix \<open>K\<close>,
  a value \<open>val\<close> and an index \<open>0 \<le> idx < numdof\<close> that lies in the range of \<open>x\<close> and of
  \<open>r\<close> this process owns, \<open>set_prescribed_variables\<close> returns, row \<open>idx\<close> of the
  returned matrix is the identity row (zero off the diagonal, one on it), and entry
  \<open>idx\<close> of the returned residual is \<open>x[idx] - val\<close>.
\<close>

theorem set_prescribed_variables_identity_row:
  assumes idx: "0 \<le> idx" "idx < int (numdof m)"
    and K: "square (numdof m) K"
    and x: "vec_get x (nat idx) = Inr xv"
    and r: "owns r (nat idx)"
  shows "\<exists>r' K'. set_prescribed_variables m x r K val idx = Inr (r', K')
           \<and> K' ! nat idx = (replicate (numdof m) 0)[nat idx := 1]
           \<and> vec_get r' (nat idx) = Inr (xv - val)"
proof -
  let ?n = "numdof m" and ?i = "nat idx"
  have i: "?i < ?n" "int ?i = idx" using idx by simp_all
  obtain xs xe where rng: "index_range x x = Inr (xs, xe)" "xs \<le> ?i" "?i < xe"
    using vec_get_index_range [OF x] by blast
  then have inside: "int xs \<le> idx \<and> idx < int xe" using idx by linarith
  obtain r' where r': "vec_set r ?i (xv - val) = Inr r'" "vec_get r' ?i = Inr (xv - val)"
    using vec_set_owned [OF r] by blast
  let ?I = "\<lambda>k M. square ?n M \<and> (if ?i < k then M ! ?i = (replicate ?n 0)[?i := 1] else M = K)"
  have "\<exists>K'. for_range 0 ?n
          (\<lambda>k M. if int k = idx then prescribed_row ?n idx k M else Inr M) K = Inr K'
          \<and> ?I ?n K'"
  proof (rule for_range_invariant [where I = "?I"])
    show "?I 0 K" using K by simp
    show "0 \<le> ?n" by simp
    fix k M assume k: "0 \<le> k" "k < ?n" and inv: "?I k M"
    show "\<exists>s'. (if int k = idx then prescribed_row ?n idx k M else Inr M) = Inr s'
            \<and> ?I (Suc k) s'"
    proof (cases "int k = idx")
      case True
      then have ki: "k = ?i" by simp
      have sqM: "square ?n M" using inv by blast
      obtain M' where M': "prescribed_row ?n idx k M = Inr M'" "square ?n M'"
        "M' ! k = (replicate ?n 0)[k := 1]"
        using prescribed_row_ok [OF sqM k(2) True [symmetric]] by blast
      have "?I (Suc k) M'" using M'(2,3) ki by simp
      moreover have "(if int k = idx then prescribed_row ?n idx k M else Inr M) = Inr M'"
        using True M'(1) by simp
      ultimately show ?thesis by blast
    next
      case False
      then have "k \<noteq> ?i" using i by auto
      then have iff: "?i < Suc k \<longleftrightarrow> ?i < k" by linarith
      have "?I (Suc k) M" unfolding iff by (rule inv)
      moreover have "(if int k = idx then prescribed_row ?n idx k M else Inr M) = Inr M"
        using False by simp
      ultimately show ?thesis by blast
    qed
  qed
  then obtain K' where K': "for_range 0 ?n
          (\<lambda>k M. if int k = idx then prescribed_row ?n idx k M else Inr M) K = Inr K'"
    "K' ! ?i = (replicate ?n 0)[?i := 1]"
    using i by auto
  have "set_prescribed_variables m x r K val idx = Inr (r', K')"
    unfolding set_prescribed_variables_def using rng inside x r' K' by simp
  then show ?thesis using r' K' by blast
qed

theorem set_prescribed_variables_identity_row_witness:
  "(0::int) \<le> 1 \<and> 1 < int (numdof (loop_model\<lparr>numdof := 2\<rparr>))
   \<and> square (numdof (loop_model\<lparr>numdof := 2\<rparr>)) [[5, 6], [7, 8]]
   \<and> vec_get (Ndarray [3, 4]) (nat 1) = Inr 4 \<and> owns (Ndarray [9, 9]) (nat 1)
   \<and> set_prescribed_variables (loop_model\<lparr>numdof := 2\<rparr>) (Ndarray [3, 4]) (Ndarray [9, 9])
        [[5, 6], [7, 8]] 1 1 = Inr (Ndarray [9, 3], [[5, 6], [0, 1]])"
proof -
  have n: "numdof (loop_model\<lparr>numdof := 2\<rparr>) = 2" by simp
  have h: "(0::int) \<le> 1" "1 < int (numdof (loop_model\<lparr>numdof := 2\<rparr>))"
    "square (numdof (loop_model\<lparr>numdof := 2\<rparr>)) [[5, 6], [7, 8]]"
    "vec_get (Ndarray [3, 4]) (nat 1) = Inr 4" "owns (Ndarray [9, 9]) (nat 1)"
    by (simp_all add: square_def vec_get_def list_get_def owns_def)
  have run: "set_prescribed_variables (loop_model\<lparr>numdof := 2\<rparr>) (Ndarray [3, 4]) (Ndarray [9, 9])
        [[5, 6], [7, 8]] 1 1 = Inr (Ndarray [9, 3], [[5, 6], [0, 1]])"
    unfolding set_prescribed_variables_def n
    by (simp add: index_range_def vec_get_def vec_set_def prescribed_row_def for_range_def
        mat_set_def list_get_def list_set_def upt_rec [of 0] upt_rec [of 1] upt_rec [of "Suc 0"])
  show ?thesis
    using set_prescribed_variables_identity_row [OF h, of 1] h run by simp
qed

section \<open>The Jacobian that evaluate fills\<close>

lemma filled_start: "filled n 0 0 g T"
  by (simp add: filled_def)

lemma filled_next_row: "filled n i n g T \<Longrightarrow> filled n (Suc i) 0 g T"
  by (auto simp: filled_def less_Suc_eq)

lemma mat_set_Inr:
  "mat_set T i j v = Inr T' \<Longrightarrow> i < length T \<and> j < length (T ! i) \<and> T' = T[i := (T ! i)[j := v]]"
  by (auto simp: mat_set_def list_get_def list_set_def split: if_splits)

lemma filled_step:
  assumes f: "filled n i j g T" and set: "mat_set T i j (g i j) = Inr T'"
  shows "filled n i (Suc j) g T'"
proof -
  from mat_set_Inr [OF set]
  have len: "i < length T" "j < length (T ! i)" and T': "T' = T[i := (T ! i)[j := g i j]]"
    by simp_all
  show ?thesis
    unfolding filled_def
  proof (intro allI impI)
    fix i' j' assume b: "i' < n" "j' < n" and before: "i' < i \<or> i' = i \<and> j' < Suc j"
    show "i' < length T' \<and> j' < length (T' ! i') \<and> T' ! i' ! j' = g i' j'"
    proof (cases "i' = i \<and> j' = j")
      case True
      then show ?thesis using len T' by simp
    next
      case False
      then have "i' < i \<or> i' = i \<and> j' < j" using before by auto
      then have old: "i' < length T \<and> j' < length (T ! i') \<and> T ! i' ! j' = g i' j'"
        using f b unfolding filled_def by blast
      show ?thesis
      proof (cases "i' = i")
        case True
        then have "j' \<noteq> j" using False by simp
        then show ?thesis using old True len T' by simp
      next
        case False
        then show ?thesis using old len T' by simp
      qed
    qed
  qed
qed

lemma filled_done:
  "filled n n 0 g T \<Longrightarrow> i < n \<Longrightarrow> j < n \<Longrightarrow> mat_get T i j = Inr (g i j)"
  by (simp add: filled_def mat_get_def list_get_def)

lemma stiffness_entry_Inr:
  assumes run: "stiffness_entry d i j m' = Inr m''"
    and m': "m' = orig\<lparr>Kdf_sym := A, Kf_sym := B\<rparr>"
    and fA: "filled n i j (\<lambda>i j. d (df_sym orig ! i) (x_sym orig ! j)) A"
    and fB: "filled n i j (\<lambda>i j. d (f_sym orig ! i) (x_sym orig ! j)) B"
  shows "\<exists>A' B'. m'' = orig\<lparr>Kdf_sym := A', Kf_sym := B'\<rparr>
           \<and> filled n i (Suc j) (\<lambda>i j. d (df_sym orig ! i) (x_sym orig ! j)) A'
           \<and> filled n i (Suc j) (\<lambda>i j. d (f_sym orig ! i) (x_sym orig ! j)) B'"
proof -
  from run obtain dfi xj A' fi B' where
    g: "list_get (df_sym m') i = Inr dfi" "list_get (x_sym m') j = Inr xj"
       "list_get (f_sym m') i = Inr fi"
    and s: "mat_set (Kdf_sym m') i j (d dfi xj) = Inr A'" "mat_set (Kf_sym m') i j (d fi xj) = Inr B'"
    and r: "m'' = m'\<lparr>Kdf_sym := A', Kf_sym := B'\<rparr>"
    unfolding stiffness_entry_def by (auto simp: ebind_eq_Inr)
  have v: "dfi = df_sym orig ! i" "xj = x_sym orig ! j" "fi = f_sym orig ! i"
    using g m' by (auto simp: list_get_def split: if_splits)
  have "filled n i (Suc j) (\<lambda>i j. d (df_sym orig ! i) (x_sym orig ! j)) A'"
    using filled_step [OF fA] s(1) v m' by simp
  moreover have "filled n i (Suc j) (\<lambda>i j. d (f_sym orig ! i) (x_sym orig ! j)) B'"
    using filled_step [OF fB] s(2) v m' by simp
  moreover have "m'' = orig\<lparr>Kdf_sym := A', Kf_sym := B'\<rparr>"
    using r m' by simp
  ultimately show ?thesis by blast
qed

lemma set_stiffness_Inr:
  assumes run: "set_stiffness d m0 = Inr m1"
  shows "\<exists>A B. m1 = m0\<lparr>Kdf_sym := A, Kf_sym := B\<rparr>
           \<and> filled (numdof m0) (numdof m0) 0 (\<lambda>i j. d (df_sym m0 ! i) (x_sym m0 ! j)) A
           \<and> filled (numdof m0) (numdof m0) 0 (\<lambda>i j. d (f_sym m0 ! i) (x_sym m0 ! j)) B"
proof -
  let ?n = "numdof m0"
  let ?g1 = "\<lambda>i j. d (df_sym m0 ! i) (x_sym m0 ! j)"
  let ?g2 = "\<lambda>i j. d (f_sym m0 ! i) (x_sym m0 ! j)"
  let ?I = "\<lambda>i j m'. \<exists>A B. m' = m0\<lparr>Kdf_sym := A, Kf_sym := B\<rparr>
              \<and> filled ?n i j ?g1 A \<and> filled ?n i j ?g2 B"
  have "?I ?n 0 m1"
  proof (rule for_range_partial [where I = "\<lambda>i. ?I i 0", OF run [unfolded set_stiffness_def]])
    show "?I 0 0 m0"
      by (rule exI [of _ "Kdf_sym m0"], rule exI [of _ "Kf_sym m0"]) (simp add: filled_start)
    show "0 \<le> ?n" by simp
    fix i s s' assume i: "i < ?n" and inv: "?I i 0 s"
      and row: "for_range 0 ?n (stiffness_entry d i) s = Inr s'"
    have "?I i ?n s'"
    proof (rule for_range_partial [where I = "?I i", OF row])
      show "?I i 0 s" by (rule inv)
      show "0 \<le> ?n" by simp
      fix j t t' assume "?I i j t" and "stiffness_entry d i j t = Inr t'"
      then show "?I i (Suc j) t'"
        using stiffness_entry_Inr [where d = d and i = i and j = j and orig = m0 and n = "?n"] by blast
    qed
    then show "?I (Suc i) 0 s'"
      using filled_next_row by blast
  qed
  then show ?thesis by blast
qed

lemma lambdify_equation_Inr:
  assumes "lambdify_equation L i m' = Inr m''"
    and "\<exists>T1 T2 T3. m' = orig\<lparr>df_fn := T1, f_fn := T2, a_fn := T3\<rparr>"
  shows "\<exists>T1 T2 T3. m'' = orig\<lparr>df_fn := T1, f_fn := T2, a_fn := T3\<rparr>"
proof -
  from assms(2) obtain T1 T2 T3 where m': "m' = orig\<lparr>df_fn := T1, f_fn := T2, a_fn := T3\<rparr>"
    by blast
  from assms(1) obtain U1 U2 U3 where "m'' = m'\<lparr>df_fn := U1, f_fn := U2, a_fn := U3\<rparr>"
    unfolding lambdify_equation_def by (auto simp: ebind_eq_Inr)
  then have "m'' = orig\<lparr>df_fn := U1, f_fn := U2, a_fn := U3\<rparr>"
    using m' by simp
  then show ?thesis by blast
qed

lemma lambdify_entry_Inr:
  assumes run: "lambdify_entry L i j m' = Inr m''"
    and m': "m' = orig\<lparr>Kdf_fn := A, Kf_fn := B\<rparr>"
    and fA: "filled n i j (\<lambda>i j. Some (L (arg_syms orig) (Kdf_sym orig ! i ! j))) A"
    and fB: "filled n i j (\<lambda>i j. Some (L (arg_syms orig) (Kf_sym orig ! i ! j))) B"
  shows "\<exists>A' B'. m'' = orig\<lparr>Kdf_fn := A', Kf_fn := B'\<rparr>
           \<and> filled n i (Suc j) (\<lambda>i j. Some (L (arg_syms orig) (Kdf_sym orig ! i ! j))) A'
           \<and> filled n i (Suc j) (\<lambda>i j. Some (L (arg_syms orig) (Kf_sym orig ! i ! j))) B'"
proof -
  from run obtain e1 e2 A' B' where
    g: "mat_get (Kdf_sym m') i j = Inr e1" "mat_get (Kf_sym m') i j = Inr e2"
    and s: "mat_set (Kdf_fn m') i j (Some (L (arg_syms m') e1)) = Inr A'"
           "mat_set (Kf_fn m') i j (Some (L (arg_syms m') e2)) = Inr B'"
    and r: "m'' = m'\<lparr>Kdf_fn := A', Kf_fn := B'\<rparr>"
    unfolding lambdify_entry_def by (auto simp: ebind_eq_Inr)
  have v: "e1 = Kdf_sym orig ! i ! j" "e2 = Kf_sym orig ! i ! j"
    using g m' by (auto simp: mat_get_def list_get_def ebind_eq_Inr split: if_splits)
  have args: "arg_syms m' = arg_syms orig"
    using m' by (simp add: arg_syms_def)
  have "filled n i (Suc j) (\<lambda>i j. Some (L (arg_syms orig) (Kdf_sym orig ! i ! j))) A'"
    using filled_step [OF fA] s(1) v args m' by simp
  moreover have "filled n i (Suc j) (\<lambda>i j. Some (L (arg_syms orig) (Kf_sym orig ! i ! j))) B'"
    using filled_step [OF fB] s(2) v args m' by simp
  moreover have "m'' = orig\<lparr>Kdf_fn := A', Kf_fn := B'\<rparr>"
    using r m' by simp
  ultimately show ?thesis by blast
qed

lemma lambdify_jacobians_Inr:
  assumes run: "for_range 0 (numdof orig) (\<lambda>i. for_range 0 (numdof orig) (lambdify_entry L i)) orig
                  = Inr m"
  shows "\<exists>A B. m = orig\<lparr>Kdf_fn := A, Kf_fn := B\<rparr>
           \<and> filled (numdof orig) (numdof orig) 0
                (\<lambda>i j. Some (L (arg_syms orig) (Kdf_sym orig ! i ! j))) A
           \<and> filled (numdof orig) (numdof orig) 0
                (\<lambda>i j. Some (L (arg_syms orig) (Kf_sym orig ! i ! j))) B"
proof -
  let ?n = "numdof orig"
  let ?g1 = "\<lambda>i j. Some (L (arg_syms orig) (Kdf_sym orig ! i ! j))"
  let ?g2 = "\<lambda>i j. Some (L (arg_syms orig) (Kf_sym orig ! i ! j))"
  let ?I = "\<lambda>i j m'. \<exists>A B. m' = orig\<lparr>Kdf_fn := A, Kf_fn := B\<rparr>
              \<and> filled ?n i j ?g1 A \<and> filled ?n i j ?g2 B"
  have "?I ?n 0 m"
  proof (rule for_range_partial [where I = "\<lambda>i. ?I i 0", OF run])
    show "?I 0 0 orig"
      by (rule exI [of _ "Kdf_fn orig"], rule exI [of _ "Kf_fn orig"]) (simp add: filled_start)
    show "0 \<le> ?n" by simp
    fix i s s' assume inv: "?I i 0 s"
      and row: "for_range 0 ?n (lambdify_entry L i) s = Inr s'"
    have "?I i ?n s'"
    proof (rule for_range_partial [where I = "?I i", OF row])
      show "?I i 0 s" by (rule inv)
      show "0 \<le> ?n" by simp
      fix j t t' assume "?I i j t" and "lambdify_entry L i j t = Inr t'"
      then show "?I i (Suc j) t'"
        using lambdify_entry_Inr [where L = L and i = i and j = j and orig = orig and n = "?n"]
        by blast
    qed
    then show "?I (Suc i) 0 s'"
      using filled_next_row by blast
  qed
  then show ?thesis by blast
qed

lemma lambdify_expressions_Inr:
  assumes run: "lambdify_expressions L orig = Inr m"
  shows "numdof m = numdof orig \<and> theta m = theta orig
       \<and> (\<forall>i<numdof orig. \<forall>j<numdof orig.
            mat_get (Kdf_fn m) i j = Inr (Some (L (arg_syms orig) (Kdf_sym orig ! i ! j)))
          \<and> mat_get (Kf_fn m) i j = Inr (Some (L (arg_syms orig) (Kf_sym orig ! i ! j))))"
proof -
  let ?n = "numdof orig"
  from run obtain mid where
    first: "for_range 0 ?n (lambdify_equation L) orig = Inr mid"
    and second: "for_range 0 ?n (\<lambda>i. for_range 0 ?n (lambdify_entry L i)) mid = Inr m"
    unfolding lambdify_expressions_def by (auto simp: ebind_eq_Inr)
  have "\<exists>T1 T2 T3. mid = orig\<lparr>df_fn := T1, f_fn := T2, a_fn := T3\<rparr>"
  proof (rule for_range_partial
      [where I = "\<lambda>i m'. \<exists>T1 T2 T3. m' = orig\<lparr>df_fn := T1, f_fn := T2, a_fn := T3\<rparr>", OF first])
    show "\<exists>T1 T2 T3. orig = orig\<lparr>df_fn := T1, f_fn := T2, a_fn := T3\<rparr>"
      by (rule exI [of _ "df_fn orig"], rule exI [of _ "f_fn orig"], rule exI [of _ "a_fn orig"])
        simp
    show "0 \<le> ?n" by simp
    fix i s s'
    assume "\<exists>T1 T2 T3. s = orig\<lparr>df_fn := T1, f_fn := T2, a_fn := T3\<rparr>"
      and "lambdify_equation L i s = Inr s'"
    then show "\<exists>T1 T2 T3. s' = orig\<lparr>df_fn := T1, f_fn := T2, a_fn := T3\<rparr>"
      using lambdify_equation_Inr by blast
  qed
  then obtain T1 T2 T3 where mid: "mid = orig\<lparr>df_fn := T1, f_fn := T2, a_fn := T3\<rparr>"
    by blast
  have same: "numdof mid = ?n" "arg_syms mid = arg_syms orig" "Kdf_sym mid = Kdf_sym orig"
    "Kf_sym mid = Kf_sym orig" "theta mid = theta orig"
    using mid by (simp_all add: arg_syms_def)
  from lambdify_jacobians_Inr [where L = L and orig = mid and m = m] second same
  obtain A B where m: "m = mid\<lparr>Kdf_fn := A, Kf_fn := B\<rparr>"
    and fA: "filled ?n ?n 0 (\<lambda>i j. Some (L (arg_syms orig) (Kdf_sym orig ! i ! j))) A"
    and fB: "filled ?n ?n 0 (\<lambda>i j. Some (L (arg_syms orig) (Kf_sym orig ! i ! j))) B"
    by auto
  show ?thesis
    using m same filled_done [OF fA] filled_done [OF fB] by simp
qed

lemma fill_K_Inr:
  assumes run: "fill_K m x_sq dt c t fnc K = Inr K1"
    and entries: "\<And>i j. i < numdof m \<Longrightarrow> j < numdof m \<Longrightarrow>
                    K_entry m x_sq dt c t fnc i j = Inr (g i j)"
    and ij: "i < numdof m" "j < numdof m"
  shows "mat_get K1 i j = Inr (g i j)"
proof -
  let ?n = "numdof m"
  have "filled ?n ?n 0 g K1"
  proof (rule for_range_partial [where I = "\<lambda>i. filled ?n i 0 g", OF run [unfolded fill_K_def]])
    show "filled ?n 0 0 g K" by (rule filled_start)
    show "0 \<le> ?n" by simp
    fix i s s' assume i: "i < ?n" and inv: "filled ?n i 0 g s"
      and row: "for_range 0 ?n
                  (\<lambda>j K'. ebind (K_entry m x_sq dt c t fnc i j) (mat_set K' i j)) s = Inr s'"
    have "filled ?n i ?n g s'"
    proof (rule for_range_partial [where I = "\<lambda>j. filled ?n i j g", OF row])
      show "filled ?n i 0 g s" by (rule inv)
      show "0 \<le> ?n" by simp
      fix j T T' assume j: "j < ?n" and f: "filled ?n i j g T"
        and step: "ebind (K_entry m x_sq dt c t fnc i j) (mat_set T i j) = Inr T'"
      have "mat_set T i j (g i j) = Inr T'"
        using step entries [OF i j] by simp
      then show "filled ?n i (Suc j) g T'"
        using filled_step [OF f] by simp
    qed
    then show "filled ?n (Suc i) 0 g s'" by (rule filled_next_row)
  qed
  then show ?thesis using ij by (rule filled_done)
qed

lemma evaluate_K_Inr:
  assumes "evaluate m allgather_vec x dt t df f (Some K) c a fnc = Inr (df', f', K', a')"
  shows "\<exists>x_sq K1. squeeze m allgather_vec x = Inr x_sq \<and> K' = Some K1
           \<and> fill_K m x_sq dt c t fnc K = Inr K1"
  using assms unfolding evaluate_def on_request_def
  by (auto simp: ebind_eq_Inr split: option.splits)

text \<open>
  Claim C3. Let the compiled tables of the model come from \<open>set_stiffness\<close> followed by
  \<open>lambdify_expressions\<close>, and let \<open>dt > 0\<close>. When \<open>evaluate\<close> is asked for \<open>K\<close> and
  returns, then for all \<open>i, j < numdof\<close> entry \<open>(i, j)\<close> of the returned matrix is the
  compiled derivative of \<open>df_i\<close> by \<open>x_j\<close> at the arguments, divided by \<open>dt\<close>, plus
  \<open>theta\<close> times the compiled derivative of \<open>f_i\<close> by \<open>x_j\<close>.
\<close>

theorem evaluate_fills_K:
  assumes dt: "dt > 0"
    and diff: "set_stiffness d orig = Inr m1"
    and comp: "lambdify_expressions L m1 = Inr m"
    and run: "evaluate m allgather_vec x dt t df f (Some K) c a fnc = Inr (df', f', K', a')"
    and ij: "i < numdof m" "j < numdof m"
  shows "\<exists>x_sq K1. squeeze m allgather_vec x = Inr x_sq \<and> K' = Some K1
           \<and> mat_get K1 i j =
               Inr (L (arg_syms orig) (d (df_sym orig ! i) (x_sym orig ! j)) x_sq c t fnc / dt
                    + theta m * L (arg_syms orig) (d (f_sym orig ! i) (x_sym orig ! j)) x_sq c t fnc)"
proof -
  let ?n = "numdof orig"
  from set_stiffness_Inr [OF diff] obtain A B where
    m1: "m1 = orig\<lparr>Kdf_sym := A, Kf_sym := B\<rparr>"
    and fA: "filled ?n ?n 0 (\<lambda>i j. d (df_sym orig ! i) (x_sym orig ! j)) A"
    and fB: "filled ?n ?n 0 (\<lambda>i j. d (f_sym orig ! i) (x_sym orig ! j)) B"
    by blast
  have same1: "numdof m1 = ?n" "arg_syms m1 = arg_syms orig" "Kdf_sym m1 = A" "Kf_sym m1 = B"
    using m1 by (simp_all add: arg_syms_def)
  have sym: "\<And>i j. i < ?n \<Longrightarrow> j < ?n \<Longrightarrow>
      A ! i ! j = d (df_sym orig ! i) (x_sym orig ! j) \<and> B ! i ! j = d (f_sym orig ! i) (x_sym orig ! j)"
    using fA fB by (simp add: filled_def)
  from lambdify_expressions_Inr [OF comp] same1
  have n: "numdof m = ?n"
    and tbl: "\<And>i j. i < ?n \<Longrightarrow> j < ?n \<Longrightarrow>
      mat_get (Kdf_fn m) i j = Inr (Some (L (arg_syms orig) (A ! i ! j)))
      \<and> mat_get (Kf_fn m) i j = Inr (Some (L (arg_syms orig) (B ! i ! j)))"
    by simp_all
  from evaluate_K_Inr [OF run] obtain x_sq K1 where
    sq: "squeeze m allgather_vec x = Inr x_sq" and K': "K' = Some K1"
    and fill: "fill_K m x_sq dt c t fnc K = Inr K1"
    by blast
  let ?g = "\<lambda>i j. L (arg_syms orig) (d (df_sym orig ! i) (x_sym orig ! j)) x_sq c t fnc / dt
                 + L (arg_syms orig) (d (f_sym orig ! i) (x_sym orig ! j)) x_sq c t fnc * theta m"
  have entry: "\<And>i j. i < numdof m \<Longrightarrow> j < numdof m \<Longrightarrow>
      K_entry m x_sq dt c t fnc i j = Inr (?g i j)"
    using tbl sym n dt by (simp add: K_entry_def call_def py_truediv_def)
  have "mat_get K1 i j = Inr (?g i j)"
    using fill_K_Inr [OF fill entry ij] by simp
  then show ?thesis using sq K' by (simp add: mult.commute)
qed

theorem evaluate_fills_K_witness:
  "(0::real) < 1 / 2
   \<and> evaluate loop_compiled (\<lambda>v. []) (Ndarray [3]) (1 / 2) 0 None None (Some [[0]]) [] None []
       = Inr (None, None, Some [[13]], None)
   \<and> mat_get [[13::real]] 0 0 = Inr 13"
  using evaluate_fills_K [OF _ loop_model_differentiated loop_model_compiled loop_model_jacobian, of 0 0]
  by (simp add: loop_model_jacobian mat_get_def list_get_def)

section \<open>The cycle monitor at a cycle boundary\<close>

lemma vec_set_Inr:
  assumes "vec_set d i y = Inr d'"
  shows "vec_get d' i = Inr y \<and> (\<forall>k. k \<noteq> i \<longrightarrow> vec_get d' k = vec_get d k) \<and> shape d' = shape d"
  using assms
  by (cases d)
    (auto simp: vec_set_def vec_get_def list_set_def list_get_def shape_def ebind_eq_Inr
      split: if_splits)

lemma copy_range_Inr:
  assumes run: "copy_range vs ve src dst = Inr d" and le: "vs \<le> ve"
  shows "shape d = shape dst \<and> (\<forall>i. vs \<le> i \<and> i < ve \<longrightarrow> vec_get d i = vec_get src i)"
proof -
  let ?I = "\<lambda>k d'. shape d' = shape dst \<and> (\<forall>i. vs \<le> i \<and> i < k \<longrightarrow> vec_get d' i = vec_get src i)"
  have "?I ve d"
  proof (rule for_range_partial [where I = "?I", OF run [unfolded copy_range_def]])
    show "?I vs dst" by auto
    show "vs \<le> ve" by (rule le)
    fix k a a' assume k: "vs \<le> k" and inv: "?I k a"
      and step: "ebind (vec_get src k) (\<lambda>y. vec_set a k y) = Inr a'"
    from step obtain y where y: "vec_get src k = Inr y" "vec_set a k y = Inr a'"
      by (auto simp: ebind_eq_Inr)
    from vec_set_Inr [OF y(2)] y(1) inv show "?I (Suc k) a'"
      by (auto simp: less_Suc_eq)
  qed
  then show ?thesis .
qed

lemma index_range_le: "index_range a b = Inr (vs, ve) \<Longrightarrow> vs \<le> ve"
  by (auto simp: index_range_def getOwnershipRange_def split: vec.splits)

lemma ndarray_eqI:
  assumes "shape a = (True, 0, n)" and "shape b = (True, 0, n)"
    and "\<forall>i. 0 \<le> i \<and> i < n \<longrightarrow> vec_get a i = vec_get b i"
  shows "a = b"
proof -
  from assms(1,2) obtain xs ys where ab: "a = Ndarray xs" "b = Ndarray ys"
    "length xs = n" "length ys = n"
    by (cases a; cases b) (auto simp: shape_def)
  have "xs = ys"
  proof (rule nth_equalityI)
    show "length xs = length ys" using ab by simp
    fix i assume "i < length xs"
    then show "xs ! i = ys ! i"
      using assms(3) ab by (auto simp: vec_get_def list_get_def)
  qed
  then show ?thesis using ab by simp
qed

lemma cycle_check_Inr:
  assumes bd: "at_cycle_boundary m t = Inr True"
    and run: "cycle_check m allgather_vec check_periodic var varTc varTc_old t cycle cyclerr eps
                check inioutpath ipac fs = Inr (is_periodic, varTc', varTc_old', cycle', cyclerr', fs')"
  shows "\<exists>vs ve pp. index_range varTc var = Inr (vs, ve)
           \<and> copy_range vs ve var varTc = Inr varTc'
           \<and> check_periodic varTc' varTc_old eps check cyclerr = Inr (pp, cyclerr')
           \<and> is_periodic = (if cycle \<le> ipac then False else pp)
           \<and> copy_range vs ve varTc' varTc_old = Inr varTc_old'
           \<and> cycle' = cycle + 1"
  using run bd unfolding cycle_check_def
  by (auto simp: ebind_eq_Inr Let_def split: if_splits option.splits)

text \<open>
  Claim C5. When \<open>cycle_check\<close> is called at a cycle boundary and returns: if the cycle
  counter is at most \<open>induce_pert_after_cycl\<close>, the returned \<open>is_periodic\<close> is false
  whatever \<open>check_periodic\<close> answered; the cycle counter is incremented; on the index
  range of the call \<open>varTc\<close> holds the entries of \<open>var\<close> and \<open>varTc_old\<close> those of
  \<open>varTc\<close>; and for numpy arrays of one length the returned \<open>varTc_old\<close> is the returned
  \<open>varTc\<close>.
\<close>

theorem cycle_check_at_boundary:
  assumes bd: "at_cycle_boundary m t = Inr True"
    and run: "cycle_check m allgather_vec check_periodic var varTc varTc_old t cycle cyclerr eps
                check inioutpath ipac fs = Inr (is_periodic, varTc', varTc_old', cycle', cyclerr', fs')"
  shows "(cycle \<le> ipac \<longrightarrow> \<not> is_periodic)
       \<and> cycle' = cycle + 1
       \<and> (\<exists>vs ve. index_range varTc var = Inr (vs, ve)
            \<and> (\<forall>i. vs \<le> i \<and> i < ve \<longrightarrow>
                  vec_get varTc' i = vec_get var i \<and> vec_get varTc_old' i = vec_get varTc' i))
       \<and> (\<forall>xs ys. varTc = Ndarray xs \<and> varTc_old = Ndarray ys \<and> length ys = length xs
            \<longrightarrow> varTc_old' = varTc')"
proof -
  from cycle_check_Inr [OF bd run] obtain vs ve pp where
    rng: "index_range varTc var = Inr (vs, ve)"
    and c1: "copy_range vs ve var varTc = Inr varTc'"
    and per: "is_periodic = (if cycle \<le> ipac then False else pp)"
    and c2: "copy_range vs ve varTc' varTc_old = Inr varTc_old'"
    and cyc: "cycle' = cycle + 1"
    by blast
  have le: "vs \<le> ve" using index_range_le [OF rng] .
  note r1 = copy_range_Inr [OF c1 le] and r2 = copy_range_Inr [OF c2 le]
  have arr: "varTc_old' = varTc'"
    if nd: "varTc = Ndarray xs" "varTc_old = Ndarray ys" "length ys = length xs" for xs ys
  proof (rule ndarray_eqI [where n = "length xs"])
    show "shape varTc_old' = (True, 0, length xs)" using r2 nd by (simp add: shape_def)
    show "shape varTc' = (True, 0, length xs)" using r1 nd by (simp add: shape_def)
    have "vs = 0 \<and> ve = length xs"
      using rng nd by (simp add: index_range_def)
    then show "\<forall>i. 0 \<le> i \<and> i < length xs \<longrightarrow> vec_get varTc_old' i = vec_get varTc' i"
      using r2 by simp
  qed
  show ?thesis
    using per cyc rng r1 r2 arr by auto
qed

theorem cycle_check_at_boundary_witness:
  "at_cycle_boundary loop_model 2 = Inr True
   \<and> cycle_check loop_model (\<lambda>v. []) (\<lambda>a b eps check cyclerr. Inr (True, cyclerr))
        (Ndarray [5]) (Ndarray [0]) (Ndarray [4]) 2 1 [0] (1 / 10) ''allvar'' None 3 Map.empty
       = Inr (False, Ndarray [5], Ndarray [5], 2, [0], Map.empty)
   \<and> (1::int) \<le> 3 \<and> (2::int) = 1 + 1 \<and> index_range (Ndarray [0]) (Ndarray [5]) = Inr (0, 1)"
proof -
  have bd: "at_cycle_boundary loop_model 2 = Inr True"
    by (simp add: at_cycle_boundary_def ModuloIsRelativeZero_def math_fmod_def trunc_quot_def
        IsRelativeEqualTo_def py_truediv_def run_simps)
  have run: "cycle_check loop_model (\<lambda>v. []) (\<lambda>a b eps check cyclerr. Inr (True, cyclerr))
        (Ndarray [5]) (Ndarray [0]) (Ndarray [4]) 2 1 [0] (1 / 10) ''allvar'' None 3 Map.empty
       = Inr (False, Ndarray [5], Ndarray [5], 2, [0], Map.empty)"
    unfolding cycle_check_def bd
    by (simp add: index_range_def copy_range_def for_range_def vec_get_def vec_set_def
        list_get_def list_set_def upt_rec [of 0])
  show ?thesis
    using cycle_check_at_boundary [OF bd run] bd run by (simp add: index_range_def)
qed

section \<open>Round trip of the initial-condition files\<close>

lemma write_lines_Inr:
  assumes "for_each vm
             (\<lambda>(name, idx) (l1, l2).
                ebind (vec_get a idx) (\<lambda>y1.
                ebind (vec_get b idx) (\<lambda>y2.
                Inr (l1 @ [(name @ ''_0'', y1)], l2 @ [(name @ ''_0'', y2)]))))
             (p1, p2) = Inr (l1, l2)"
  shows "l1 = p1 @ initial_lines vm a \<and> l2 = p2 @ initial_lines vm b
       \<and> (\<forall>(name, idx) \<in> set vm. vec_get a idx = Inr (entry_value a idx)
                                   \<and> vec_get b idx = Inr (entry_value b idx))"
  using assms
proof (induction vm arbitrary: p1 p2)
  case Nil
  then show ?case by (simp add: initial_lines_def)
next
  case (Cons x vm)
  obtain name idx where x: "x = (name, idx)" by (cases x)
  from Cons.prems x obtain y1 y2 where
    y: "vec_get a idx = Inr y1" "vec_get b idx = Inr y2"
    and rest: "for_each vm
             (\<lambda>(name, idx) (l1, l2).
                ebind (vec_get a idx) (\<lambda>y1.
                ebind (vec_get b idx) (\<lambda>y2.
                Inr (l1 @ [(name @ ''_0'', y1)], l2 @ [(name @ ''_0'', y2)]))))
             (p1 @ [(name @ ''_0'', y1)], p2 @ [(name @ ''_0'', y2)]) = Inr (l1, l2)"
    by (auto simp: ebind_eq_Inr)
  from Cons.IH [OF rest] y x show ?case
    by (simp add: initial_lines_def entry_value_def)
qed

lemma fold_put_other:
  "k \<notin> fst ` set ls \<Longrightarrow> fold (put_line f) ls d0 k = d0 k"
  by (induction ls arbitrary: d0) (auto simp: put_line_def split: prod.splits)

lemma fold_put_lookup:
  assumes "distinct (map fst ls)" and "(k, v) \<in> set ls"
  shows "fold (put_line f) ls d0 k = Some (f v)"
  using assms
proof (induction ls arbitrary: d0)
  case Nil
  then show ?case by simp
next
  case (Cons x ls)
  show ?case
  proof (cases "x = (k, v)")
    case True
    then have "k \<notin> fst ` set ls" using Cons.prems(1) by simp
    then have "fold (put_line f) ls (put_line f x d0) k = put_line f x d0 k"
      by (rule fold_put_other)
    also have "put_line f x d0 k = Some (f v)"
      using True by (simp add: put_line_def)
    finally show ?thesis by simp
  next
    case False
    then have "(k, v) \<in> set ls" using Cons.prems(2) by simp
    moreover have "distinct (map fst ls)" using Cons.prems(1) by simp
    ultimately show ?thesis using Cons.IH by simp
  qed
qed

lemma initial_lines_keys:
  assumes "distinct (map fst vm)"
  shows "distinct (map fst (initial_lines vm v))"
proof -
  have eq: "map fst (initial_lines vm v) = map (\<lambda>n. n @ ''_0'') (map fst vm)"
    by (simp add: initial_lines_def case_prod_beta)
  have inj: "inj_on (\<lambda>n. n @ ''_0'') (set (map fst vm))"
    by (rule inj_onI) simp
  have "distinct (map (\<lambda>n. n @ ''_0'') (map fst vm))"
    by (rule iffD2 [OF distinct_map]) (rule conjI [OF assms inj])
  then show ?thesis by (simp only: eq)
qed

lemma initial_lines_member:
  "(name, idx) \<in> set vm \<Longrightarrow> (name @ ''_0'', entry_value v idx) \<in> set (initial_lines vm v)"
  by (force simp: initial_lines_def)

lemma write_initial_Inr:
  assumes writer: "comm m = Some 0"
    and wr: "write_initial m allgather_vec path varTc_old varTc fs = Inr fs'"
  shows "fs' (path @ ''/initial_data_Tstart.txt'')
           = Some (initial_lines (varmap m) (gathered allgather_vec varTc_old varTc_old))
       \<and> fs' (path @ ''/initial_data_Tend.txt'')
           = Some (initial_lines (varmap m) (gathered allgather_vec varTc_old varTc))
       \<and> (\<forall>(name, idx) \<in> set (varmap m).
             vec_get (gathered allgather_vec varTc_old varTc_old) idx
               = Inr (entry_value (gathered allgather_vec varTc_old varTc_old) idx)
           \<and> vec_get (gathered allgather_vec varTc_old varTc) idx
               = Inr (entry_value (gathered allgather_vec varTc_old varTc) idx))"
proof -
  let ?a = "gathered allgather_vec varTc_old varTc_old"
  let ?b = "gathered allgather_vec varTc_old varTc"
  from wr writer obtain l1 l2 where
    loop: "for_each (varmap m)
             (\<lambda>(name, idx) (l1, l2).
                ebind (vec_get ?a idx) (\<lambda>y1.
                ebind (vec_get ?b idx) (\<lambda>y2.
                Inr (l1 @ [(name @ ''_0'', y1)], l2 @ [(name @ ''_0'', y2)]))))
             ([], []) = Inr (l1, l2)"
    and fs': "fs' = fs(path @ ''/initial_data_Tstart.txt'' := Some l1,
                       path @ ''/initial_data_Tend.txt'' := Some l2)"
    unfolding write_initial_def gathered_def
    by (auto simp: ebind_eq_Inr split: if_splits)
  from write_lines_Inr [OF loop] fs' show ?thesis by simp
qed

text \<open>
  Claim C9. Let the number read back from the \<^verbatim>\<open>'%.16E'\<close> text of a value differ from
  the value by at most \<open>10^-16\<close> of its magnitude, and let the process of rank 0 write the
  files with \<open>write_initial\<close>. Then \<open>set_initial_from_file\<close> reads each of the two files
  into a dictionary that maps the key \<open>name_0\<close> of every variable of \<open>varmap\<close> to the
  number read back from the entry written for it, which is the original entry up to that
  precision.
\<close>

theorem initial_file_round_trip:
  assumes precise: "\<forall>v. \<bar>read_back v - v\<bar> \<le> \<bar>v\<bar> / 10 ^ 16"
    and keys: "distinct (map fst (varmap m))"
    and writer: "comm m = Some 0"
    and wr: "write_initial m allgather_vec path varTc_old varTc fs = Inr fs'"
    and entry: "(name, idx) \<in> set (varmap m)"
  shows "\<exists>d_start d_end v_start v_end.
           set_initial_from_file read_back fs' (path @ ''/initial_data_Tstart.txt'') = Inr d_start
         \<and> set_initial_from_file read_back fs' (path @ ''/initial_data_Tend.txt'') = Inr d_end
         \<and> vec_get (gathered allgather_vec varTc_old varTc_old) idx = Inr v_start
         \<and> vec_get (gathered allgather_vec varTc_old varTc) idx = Inr v_end
         \<and> d_start (name @ ''_0'') = Some (read_back v_start)
         \<and> d_end (name @ ''_0'') = Some (read_back v_end)
         \<and> \<bar>read_back v_start - v_start\<bar> \<le> \<bar>v_start\<bar> / 10 ^ 16
         \<and> \<bar>read_back v_end - v_end\<bar> \<le> \<bar>v_end\<bar> / 10 ^ 16"
proof -
  let ?a = "gathered allgather_vec varTc_old varTc_old"
  let ?b = "gathered allgather_vec varTc_old varTc"
  let ?put = "put_line read_back"
  from write_initial_Inr [OF writer wr] entry
  have f1: "fs' (path @ ''/initial_data_Tstart.txt'') = Some (initial_lines (varmap m) ?a)"
    and f2: "fs' (path @ ''/initial_data_Tend.txt'') = Some (initial_lines (varmap m) ?b)"
    and g1: "vec_get ?a idx = Inr (entry_value ?a idx)"
    and g2: "vec_get ?b idx = Inr (entry_value ?b idx)"
    by auto
  have r1: "set_initial_from_file read_back fs' (path @ ''/initial_data_Tstart.txt'')
              = Inr (fold ?put (initial_lines (varmap m) ?a) Map.empty)"
    by (simp add: set_initial_from_file_def f1)
  have r2: "set_initial_from_file read_back fs' (path @ ''/initial_data_Tend.txt'')
              = Inr (fold ?put (initial_lines (varmap m) ?b) Map.empty)"
    by (simp add: set_initial_from_file_def f2)
  have l1: "fold ?put (initial_lines (varmap m) ?a) Map.empty (name @ ''_0'')
              = Some (read_back (entry_value ?a idx))"
    using fold_put_lookup [OF initial_lines_keys [OF keys] initial_lines_member [OF entry]] .
  have l2: "fold ?put (initial_lines (varmap m) ?b) Map.empty (name @ ''_0'')
              = Some (read_back (entry_value ?b idx))"
    using fold_put_lookup [OF initial_lines_keys [OF keys] initial_lines_member [OF entry]] .
  show ?thesis
    using r1 r2 g1 g2 l1 l2 precise by blast
qed

theorem initial_file_round_trip_witness:
  "(\<forall>v. \<bar>near_exact v - v\<bar> \<le> \<bar>v\<bar> / 10 ^ 16)
   \<and> distinct (map fst (varmap loop_model)) \<and> comm loop_model = Some 0
   \<and> (''q'', 0) \<in> set (varmap loop_model)
   \<and> (\<exists>fs' d_start d_end.
         write_initial loop_model (\<lambda>v. []) ''out'' (Ndarray [4]) (Ndarray [5]) Map.empty = Inr fs'
       \<and> set_initial_from_file near_exact fs' ''out/initial_data_Tstart.txt'' = Inr d_start
       \<and> set_initial_from_file near_exact fs' ''out/initial_data_Tend.txt'' = Inr d_end
       \<and> d_start ''q_0'' = Some (near_exact 4) \<and> d_end ''q_0'' = Some (near_exact 5)
       \<and> \<bar>near_exact 4 - 4\<bar> \<le> \<bar>4\<bar> / 10 ^ 16 \<and> \<bar>near_exact 5 - 5\<bar> \<le> \<bar>5\<bar> / 10 ^ 16)"
proof -
  have h: "distinct (map fst (varmap loop_model))" "comm loop_model = Some 0"
    "(''q'', 0) \<in> set (varmap loop_model)"
    by (simp_all add: run_simps)
  from loop_model_written obtain fs' where
    wr: "write_initial loop_model (\<lambda>v. []) ''out'' (Ndarray [4]) (Ndarray [5]) Map.empty = Inr fs'"
    by blast
  have g: "gathered (\<lambda>v. []) (Ndarray [4]) (Ndarray [4]) = Ndarray [4]"
    "gathered (\<lambda>v. []) (Ndarray [4]) (Ndarray [5]) = Ndarray [5]"
    by (simp_all add: gathered_def is_ndarray_def)
  from initial_file_round_trip [OF near_exact_precise h(1,2) wr h(3)]
  obtain d_start d_end v_start v_end where
    r: "set_initial_from_file near_exact fs' (''out'' @ ''/initial_data_Tstart.txt'') = Inr d_start"
       "set_initial_from_file near_exact fs' (''out'' @ ''/initial_data_Tend.txt'') = Inr d_end"
    and v: "vec_get (Ndarray [4]) 0 = Inr v_start" "vec_get (Ndarray [5]) 0 = Inr v_end"
    and d: "d_start (''q'' @ ''_0'') = Some (near_exact v_start)"
           "d_end (''q'' @ ''_0'') = Some (near_exact v_end)"
    and e: "\<bar>near_exact v_start - v_start\<bar> \<le> \<bar>v_start\<bar> / 10 ^ 16"
           "\<bar>near_exact v_end - v_end\<bar> \<le> \<bar>v_end\<bar> / 10 ^ 16"
    unfolding g by blast
  have vs: "v_start = 4" "v_end = 5"
    using v by (simp_all add: vec_get_def list_get_def)
  have "set_initial_from_file near_exact fs' ''out/initial_data_Tstart.txt'' = Inr d_start"
    "set_initial_from_file near_exact fs' ''out/initial_data_Tend.txt'' = Inr d_end"
    "d_start ''q_0'' = Some (near_exact 4)" "d_end ''q_0'' = Some (near_exact 5)"
    "\<bar>near_exact 4 - 4\<bar> \<le> \<bar>4\<bar> / 10 ^ 16" "\<bar>near_exact 5 - 5\<bar> \<le> \<bar>5\<bar> / 10 ^ 16"
    using r d e vs by simp_all
  with wr near_exact_precise h show ?thesis by blast
qed

section \<open>Partiality of the cycle-boundary test\<close>

text \<open>
  Claim C10. For every modulus \<open>T > 0\<close>, \<open>IsRelativeEqualTo\<close> and
  \<open>ModuloIsRelativeZero\<close> called with the reference value \<open>0\<close> raise
  \<^verbatim>\<open>ZeroDivisionError\<close> instead of returning a boolean; so does \<open>cycle_check\<close> called
  at time \<open>t = 0\<close> on a model with \<open>T_cycl = T\<close>, once its index range is computed.
\<close>

theorem relative_tests_raise_at_zero_ref:
  assumes "T > 0" and "T_cycl m = T" and "index_range varTc var = Inr rng"
  shows "IsRelativeEqualTo A B 0 = Inl ZeroDivisionError
       \<and> ModuloIsRelativeZero v T 0 = Inl ZeroDivisionError
       \<and> cycle_check m allgather_vec check_periodic var varTc varTc_old 0 cycle cyclerr eps
            check inioutpath ipac fs = Inl ZeroDivisionError"
proof -
  have a: "IsRelativeEqualTo A B 0 = Inl ZeroDivisionError" for A B
    by (simp add: IsRelativeEqualTo_def py_truediv_def)
  have b: "ModuloIsRelativeZero v T 0 = Inl ZeroDivisionError" for v
    using assms(1) by (simp add: ModuloIsRelativeZero_def math_fmod_def a)
  have "at_cycle_boundary m 0 = Inl ZeroDivisionError"
    using assms(1,2) b by (simp add: at_cycle_boundary_def)
  then have "cycle_check m allgather_vec check_periodic var varTc varTc_old 0 cycle cyclerr eps
            check inioutpath ipac fs = Inl ZeroDivisionError"
    using assms(3) by (cases rng) (simp add: cycle_check_def)
  with a b show ?thesis by simp
qed

theorem relative_tests_raise_at_zero_ref_witness:
  "(0::real) < 1 \<and> T_cycl loop_model = 1
   \<and> index_range (Ndarray [0]) (Ndarray [5]) = Inr (0, 1)
   \<and> IsRelativeEqualTo 1 2 0 = Inl ZeroDivisionError
   \<and> ModuloIsRelativeZero 0 1 0 = Inl ZeroDivisionError
   \<and> cycle_check loop_model (\<lambda>v. []) (\<lambda>a b eps check cyclerr. Inr (True, cyclerr))
        (Ndarray [5]) (Ndarray [0]) (Ndarray [4]) 0 1 [0] (1 / 10) ''allvar'' None 3 Map.empty
       = Inl ZeroDivisionError"
proof -
  have T: "T_cycl loop_model = 1" by (simp add: run_simps)
  have r: "index_range (Ndarray [0]) (Ndarray [5]) = Inr (0, 1)" by (simp add: index_range_def)
  show ?thesis
    using relative_tests_raise_at_zero_ref [OF _ T r, of 1 2 0] T r by simp
qed

section \<open>Disease perturbation\<close>

text \<open>
  Claim C6. \<open>induce_perturbation\<close> returns the model unchanged whenever
  \<open>induce_pert_after_cycl \<le> 0\<close>, or the flag \<open>have_induced_pert\<close> is set, or
  \<open>cycle \<le> induce_pert_after_cycl\<close>. When it acts and returns, the flag is set in the
  returned model, and every further call on it, with any arguments, returns it
  unchanged.
\<close>

theorem induce_perturbation_one_shot:
  "((ipac \<le> 0 \<or> have_induced_pert m \<or> cycle \<le> ipac)
      \<longrightarrow> induce_perturbation co m perturb_type cycle ipac = Inr m)
   \<and> (fires m cycle ipac \<and> induce_perturbation co m perturb_type cycle ipac = Inr m'
      \<longrightarrow> have_induced_pert m'
          \<and> (\<forall>co' perturb_type' cycle' ipac'.
                induce_perturbation co' m' perturb_type' cycle' ipac' = Inr m'))"
proof -
  have noop: "induce_perturbation co m perturb_type cycle ipac = Inr m"
    if "ipac \<le> 0 \<or> have_induced_pert m \<or> cycle \<le> ipac"
    using that by (auto simp: induce_perturbation_def)
  have fired: "have_induced_pert m'"
    if "fires m cycle ipac" and "induce_perturbation co m perturb_type cycle ipac = Inr m'"
    using that
    by (auto simp: induce_perturbation_def fires_def ebind_eq_Inr split: option.splits)
  have again: "induce_perturbation co' m' perturb_type' cycle' ipac' = Inr m'"
    if "have_induced_pert m'" for co' perturb_type' cycle' ipac'
    using that by (simp add: induce_perturbation_def)
  show ?thesis using noop fired again by blast
qed

theorem induce_perturbation_one_shot_witness:
  "induce_perturbation loop_collaborators loop_model ''ms'' 1 1 = Inr loop_model
   \<and> fires loop_model 2 1
   \<and> (\<exists>m'. induce_perturbation loop_collaborators loop_model ''ms'' 2 1 = Inr m'
          \<and> have_induced_pert m'
          \<and> induce_perturbation loop_collaborators m' ''ar'' 7 3 = Inr m')"
proof -
  from loop_perturbation_runs obtain m' where
    run: "induce_perturbation loop_collaborators loop_model ''ms'' 2 1 = Inr m'" by blast
  have idle: "induce_perturbation loop_collaborators loop_model ''ms'' 1 1 = Inr loop_model"
    using induce_perturbation_one_shot [of 1 loop_model 1 loop_collaborators "''ms''"] by simp
  have "have_induced_pert m' \<and> induce_perturbation loop_collaborators m' ''ar'' 7 3 = Inr m'"
    using induce_perturbation_one_shot [of 1 loop_model 2 loop_collaborators "''ms''" m']
      loop_fires run by blast
  with run idle loop_fires show ?thesis by blast
qed

lemma induce_perturbation_Inr:
  assumes "fires m cycle ipac"
    and "induce_perturbation co m perturb_type cycle ipac = Inr m'"
  shows "\<exists>mr. rebuild co (perturb perturb_type m) = Inr mr \<and> m' = mr\<lparr>have_induced_pert := True\<rparr>"
  using assms
  by (auto simp: induce_perturbation_def fires_def ebind_eq_Inr split: option.splits)

text \<open>
  Claim C7, as the specification states it, has the order: rebuild the symbolic
  equations, recompile the callables, re-differentiate the Jacobians. The method
  differentiates before it compiles. On the one-equation circulation the two orders are
  told apart by the stiffness entry that \<open>evaluate\<close> returns afterwards at \<open>q = 3\<close>,
  \<open>dt = 1/2\<close>: the method yields \<open>6 / dt + theta * R_vin_l_min\<close>, the stated order yields
  \<open>0\<close>, since it compiles the Jacobian tables that \<open>setup_arrays\<close> has just emptied.
\<close>

theorem rebuild_order_counterexample:
  "ebind (induce_perturbation loop_collaborators loop_model ''ms'' 2 1) (jacobian_at 3 (1 / 2))
     = Inr (None, None, Some [[12 + 1 / 80000]], None)
   \<and> ebind (rebuild_recompile_rediff loop_collaborators (perturb ''ms'' loop_model))
       (jacobian_at 3 (1 / 2))
     = Inr (None, None, Some [[0]], None)"
  by (simp add: perturbation_simps evaluate_simps)

text \<open>
  Claim C7, amended. When \<open>induce_perturbation\<close> acts and returns, it has run, in
  this order, \<open>setup_arrays\<close>, \<open>set_chamber_interfaces\<close>, \<open>equation_map\<close> (the rebuild
  of the symbolic equations), \<open>set_stiffness\<close> (the re-differentiation) and
  \<open>lambdify_expressions\<close> (the recompilation); the compiled Jacobian callables of the
  returned model are the compiled derivatives of the rebuilt equations.
\<close>

theorem induce_perturbation_rebuild_order:
  assumes fire: "fires m cycle ipac"
    and run: "induce_perturbation co m perturb_type cycle ipac = Inr m'"
  shows "\<exists>m1 m2 m3 m4 m5.
           setup_arrays co (perturb perturb_type m) = Inr m1
         \<and> set_chamber_interfaces co m1 = Inr m2
         \<and> equation_map co m2 = Inr m3
         \<and> set_stiffness (sp_diff co) m3 = Inr m4
         \<and> lambdify_expressions (sp_lambdify co) m4 = Inr m5
         \<and> m' = m5\<lparr>have_induced_pert := True\<rparr>
         \<and> (\<forall>i<numdof m3. \<forall>j<numdof m3.
              mat_get (Kdf_fn m') i j =
                Inr (Some (sp_lambdify co (arg_syms m3) (sp_diff co (df_sym m3 ! i) (x_sym m3 ! j))))
            \<and> mat_get (Kf_fn m') i j =
                Inr (Some (sp_lambdify co (arg_syms m3) (sp_diff co (f_sym m3 ! i) (x_sym m3 ! j)))))"
proof -
  from induce_perturbation_Inr [OF fire run] obtain m5 where
    rb: "rebuild co (perturb perturb_type m) = Inr m5" and m': "m' = m5\<lparr>have_induced_pert := True\<rparr>"
    by blast
  from rb obtain m1 m2 m3 m4 where
    s1: "setup_arrays co (perturb perturb_type m) = Inr m1"
    and s2: "set_chamber_interfaces co m1 = Inr m2"
    and s3: "equation_map co m2 = Inr m3"
    and s4: "set_stiffness (sp_diff co) m3 = Inr m4"
    and s5: "lambdify_expressions (sp_lambdify co) m4 = Inr m5"
    unfolding rebuild_def by (auto simp: ebind_eq_Inr)
  let ?n = "numdof m3"
  from set_stiffness_Inr [OF s4] obtain A B where
    m4: "m4 = m3\<lparr>Kdf_sym := A, Kf_sym := B\<rparr>"
    and fA: "filled ?n ?n 0 (\<lambda>i j. sp_diff co (df_sym m3 ! i) (x_sym m3 ! j)) A"
    and fB: "filled ?n ?n 0 (\<lambda>i j. sp_diff co (f_sym m3 ! i) (x_sym m3 ! j)) B"
    by blast
  have same: "numdof m4 = ?n" "arg_syms m4 = arg_syms m3" "Kdf_sym m4 = A" "Kf_sym m4 = B"
    using m4 by (simp_all add: arg_syms_def)
  have sym: "\<And>i j. i < ?n \<Longrightarrow> j < ?n \<Longrightarrow>
      A ! i ! j = sp_diff co (df_sym m3 ! i) (x_sym m3 ! j)
      \<and> B ! i ! j = sp_diff co (f_sym m3 ! i) (x_sym m3 ! j)"
    using fA fB by (simp add: filled_def)
  from lambdify_expressions_Inr [OF s5] same
  have tbl: "\<And>i j. i < ?n \<Longrightarrow> j < ?n \<Longrightarrow>
      mat_get (Kdf_fn m5) i j = Inr (Some (sp_lambdify co (arg_syms m3) (A ! i ! j)))
      \<and> mat_get (Kf_fn m5) i j = Inr (Some (sp_lambdify co (arg_syms m3) (B ! i ! j)))"
    by simp
  have "\<forall>i<?n. \<forall>j<?n.
          mat_get (Kdf_fn m') i j =
            Inr (Some (sp_lambdify co (arg_syms m3) (sp_diff co (df_sym m3 ! i) (x_sym m3 ! j))))
        \<and> mat_get (Kf_fn m') i j =
            Inr (Some (sp_lambdify co (arg_syms m3) (sp_diff co (f_sym m3 ! i) (x_sym m3 ! j))))"
    using tbl sym m' by simp
  with s1 s2 s3 s4 s5 m' show ?thesis by blast
qed

theorem induce_perturbation_rebuild_order_witness:
  "fires loop_model 2 1
   \<and> (\<exists>m'. induce_perturbation loop_collaborators loop_model ''ms'' 2 1 = Inr m'
          \<and> mat_get (Kf_fn m') 0 0 =
              Inr (Some (sym_lambdify ([Symb ''q''], [], Symb ''t'', [])
                     (sym_diff (Mul (Num (25 / 10 ^ 6)) (Symb ''q'')) (Symb ''q'')))))"
proof -
  from loop_perturbation_runs obtain m' where
    run: "induce_perturbation loop_collaborators loop_model ''ms'' 2 1 = Inr m'" by blast
  from induce_perturbation_rebuild_order [OF loop_fires run] obtain m1 m2 m3 where
    s1: "setup_arrays loop_collaborators (perturb ''ms'' loop_model) = Inr m1"
    and s2: "set_chamber_interfaces loop_collaborators m1 = Inr m2"
    and s3: "equation_map loop_collaborators m2 = Inr m3"
    and K: "\<forall>i<numdof m3. \<forall>j<numdof m3.
              mat_get (Kf_fn m') i j =
                Inr (Some (sp_lambdify loop_collaborators (arg_syms m3)
                       (sp_diff loop_collaborators (f_sym m3 ! i) (x_sym m3 ! j))))"
    by blast
  have m3: "numdof m3 = 1" "arg_syms m3 = ([Symb ''q''], [], Symb ''t'', [])"
    "f_sym m3 = [Mul (Num (25 / 10 ^ 6)) (Symb ''q'')]" "x_sym m3 = [Symb ''q'']"
    using s1 s2 s3 by (auto simp: perturbation_simps)
  have "mat_get (Kf_fn m') 0 0 =
          Inr (Some (sym_lambdify ([Symb ''q''], [], Symb ''t'', [])
                 (sym_diff (Mul (Num (25 / 10 ^ 6)) (Symb ''q'')) (Symb ''q''))))"
    using K m3 by (simp add: loop_collaborators_def)
  with run loop_fires show ?thesis by blast
qed

section \<open>The update of the PTC factor\<close>

lemma ptc_update_factor:
  assumes "PTC (slv st)" "it st > 1" "struct_res_u_norm_last st = Some prev" "prev > 0"
  shows "ptc_update res st = Inr (st\<lparr>k_PTC := k_PTC st * (res / prev),
                                     struct_res_u_norm_last := Some res\<rparr>)"
  using assms by (simp add: ptc_update_def)

lemma continue_on_divergence_idle:
  assumes "\<not> (divcont (slv st) = Some ''PTC'' \<and> cse (res_u ps) (inc_u ps) maxresval)"
    and "continue_on_divergence cse u_start p_start ps st = Inr st'"
  shows "k_PTC st' = k_PTC st"
  using assms by (auto simp: continue_on_divergence_def Let_def split: if_splits)

lemma continue_on_divergence_monolithic_idle:
  assumes "\<not> (divcont (slv st) = Some ''PTC'' \<and> cse (res_u ps) (inc_u ps) maxresval)"
    and "continue_on_divergence_monolithic cse s u_start s_start p_start ps st = Inr st'"
  shows "k_PTC st' = k_PTC st"
  using assms by (auto simp: continue_on_divergence_monolithic_def Let_def split: if_splits)

lemma converge_or_continue_k_PTC:
  "(broke, st') = converge_or_continue c st \<Longrightarrow> k_PTC st' = k_PTC st"
  by (auto simp: converge_or_continue_def split: if_splits)

lemma ptc_factor_kept:
  assumes active: "PTC (slv st)" and later: "it st \<ge> 1"
    and prev: "struct_res_u_norm_last st = Some prev" "prev > 0"
    and idle: "\<not> (divcont (slv st) = Some ''PTC'' \<and> cse (res_u ps) (inc_u ps) maxresval)"
  shows "(newton_pass cse chk u_start p_start ps st = Inr (broke, st')
            \<longrightarrow> k_PTC st' = k_PTC st * (res_u ps / prev))
       \<and> (newton_pass_monolithic cse chk s u_start s_start p_start ps st = Inr (broke, st')
            \<longrightarrow> k_PTC st' = k_PTC st * (res_u ps / prev))
       \<and> (0 < k_PTC st \<and> prev < res_u ps \<longrightarrow> k_PTC st < k_PTC st * (res_u ps / prev))
       \<and> (0 < k_PTC st \<and> res_u ps < prev \<longrightarrow> k_PTC st * (res_u ps / prev) < k_PTC st)"
proof -
  have plain: "k_PTC st' = k_PTC st * (res_u ps / prev)"
    if run: "newton_pass cse chk u_start p_start ps st = Inr (broke, st')"
  proof -
    from newton_pass_Inr [OF run] obtain st1 st2 where
      a: "ptc_update (res_u ps) (advance ps st) = Inr st1"
      and b: "continue_on_divergence cse u_start p_start ps st1 = Inr st2"
      and c: "(broke, st') = converge_or_continue
                (chk (fst (pass_norms (slv st) ps)) (snd (pass_norms (slv st) ps))
                   (tolerances (slv st2))) st2"
      by blast
    have adv: "PTC (slv (advance ps st))" "it (advance ps st) > 1"
      "struct_res_u_norm_last (advance ps st) = Some prev"
      "k_PTC (advance ps st) = k_PTC st"
      using advance_fields [of ps st] active later prev by simp_all
    have st1: "k_PTC st1 = k_PTC st * (res_u ps / prev)" "slv st1 = slv st"
      using a ptc_update_factor [OF adv(1,2,3) prev(2), of "res_u ps"] adv(4)
        advance_fields [of ps st] by auto
    have "k_PTC st2 = k_PTC st1"
      using continue_on_divergence_idle [OF _ b] idle st1(2) by simp
    then show ?thesis using converge_or_continue_k_PTC [OF c] st1 by simp
  qed
  have mono: "k_PTC st' = k_PTC st * (res_u ps / prev)"
    if run: "newton_pass_monolithic cse chk s u_start s_start p_start ps st = Inr (broke, st')"
  proof -
    from newton_pass_monolithic_Inr [OF run] obtain st0 st1 st2 where
      i: "inner_solve s ps st = Inr st0"
      and a: "ptc_update (res_u ps) (advance_monolithic s ps st0) = Inr st1"
      and b: "continue_on_divergence_monolithic cse s u_start s_start p_start ps st1 = Inr st2"
      and c: "(broke, st') = converge_or_continue
                (chk (fst (pass_norms_monolithic (slv st) ps))
                   (snd (pass_norms_monolithic (slv st) ps)) (tolerances (slv st2))) st2"
      by blast
    note i' = inner_solve_Inr [OF i]
    have adv: "PTC (slv (advance_monolithic s ps st0))" "it (advance_monolithic s ps st0) > 1"
      "struct_res_u_norm_last (advance_monolithic s ps st0) = Some prev"
      "k_PTC (advance_monolithic s ps st0) = k_PTC st"
      using advance_monolithic_fields [of s ps st0] i' active later prev by simp_all
    have st1: "k_PTC st1 = k_PTC st * (res_u ps / prev)" "slv st1 = slv st"
      using a ptc_update_factor [OF adv(1,2,3) prev(2), of "res_u ps"] adv(4)
        advance_monolithic_fields [of s ps st0] i' by auto
    have "k_PTC st2 = k_PTC st1"
      using continue_on_divergence_monolithic_idle [OF _ b] idle st1(2) by simp
    then show ?thesis using converge_or_continue_k_PTC [OF c] st1 by simp
  qed
  have up: "k_PTC st < k_PTC st * (res_u ps / prev)" if "0 < k_PTC st" "prev < res_u ps"
  proof -
    have "1 < res_u ps / prev" using that(2) prev(2) by simp
    then have "k_PTC st * 1 < k_PTC st * (res_u ps / prev)"
      using that(1) by (rule mult_strict_left_mono)
    then show ?thesis by simp
  qed
  have down: "k_PTC st * (res_u ps / prev) < k_PTC st" if "0 < k_PTC st" "res_u ps < prev"
  proof -
    have "res_u ps / prev < 1" using that(2) prev(2) by simp
    then have "k_PTC st * (res_u ps / prev) < k_PTC st * 1"
      using that(1) by (rule mult_strict_left_mono)
    then show ?thesis by simp
  qed
  show ?thesis using plain mono up down by blast
qed

lemma ptc_update_step:
  assumes "PTC (slv st)" "it st \<ge> 1" "struct_res_u_norm_last st = Some prev" "prev > 0"
  shows "\<exists>st1. ptc_update (res_u ps) (advance ps st) = Inr st1
           \<and> k_PTC st1 = k_PTC st * (res_u ps / prev)"
proof -
  have adv: "PTC (slv (advance ps st))" "it (advance ps st) > 1"
    "struct_res_u_norm_last (advance ps st) = Some prev" "k_PTC (advance ps st) = k_PTC st"
    using advance_fields [of ps st] assms by simp_all
  show ?thesis
    using ptc_update_factor [OF adv(1,2,3) assms(4), of "res_u ps"] adv(4) by simp
qed

lemma ptc_update_step_monolithic:
  assumes "PTC (slv st)" "it st \<ge> 1" "struct_res_u_norm_last st = Some prev" "prev > 0"
    and "inner_solve s ps st = Inr st0"
  shows "\<exists>st1. ptc_update (res_u ps) (advance_monolithic s ps st0) = Inr st1
           \<and> k_PTC st1 = k_PTC st * (res_u ps / prev)"
proof -
  note i = inner_solve_Inr [OF assms(5)]
  have adv: "PTC (slv (advance_monolithic s ps st0))" "it (advance_monolithic s ps st0) > 1"
    "struct_res_u_norm_last (advance_monolithic s ps st0) = Some prev"
    "k_PTC (advance_monolithic s ps st0) = k_PTC st"
    using advance_monolithic_fields [of s ps st0] i assms(1-3) by simp_all
  show ?thesis
    using ptc_update_factor [OF adv(1,2,3) assms(4), of "res_u ps"] adv(4) by simp
qed

text \<open>
  Claim C4, as stated, has every such pass end with the factor multiplied by the ratio
  of the norms, and a growing residual norm increase the factor. With PTC active, the
  iteration index at 1 and the previous norm 2, a pass that meets the residual norm
  \<open>10^17\<close> restarts: both solvers leave it with the factor \<open>11/100\<close>, the initial factor
  times the random number, and not with \<open>1/10\<close> times \<open>10^17 / 2\<close>. From the factor \<open>0\<close> a
  residual norm that grows from 2 to 4 leaves the factor at \<open>0\<close>.
\<close>

theorem ptc_factor_counterexample:
  "PTC (slv damped_state) \<and> it damped_state = 1
   \<and> struct_res_u_norm_last damped_state = Some 2 \<and> k_PTC damped_state = 1 / 10
   \<and> k_PTC damped_state * (res_u diverged_pass / 2) = 5 * 10 ^ 15
   \<and> (\<exists>st'. newton_pass large_residual within_tolerances 1 0 diverged_pass damped_state
               = Inr (False, st') \<and> k_PTC st' = 11 / 100)
   \<and> (\<exists>st'. newton_pass_monolithic large_residual within_tolerances StateVec 1 2 0 diverged_pass
               damped_state = Inr (False, st') \<and> k_PTC st' = 11 / 100)
   \<and> res_u growing_pass = 4
   \<and> (\<exists>st'. newton_pass large_residual within_tolerances 1 0 growing_pass
               (damped_state\<lparr>k_PTC := 0\<rparr>) = Inr (False, st') \<and> k_PTC st' = 0)"
proof -
  have "PTC (slv damped_state)" "it damped_state = 1"
    "struct_res_u_norm_last damped_state = Some 2" "k_PTC damped_state = 1 / 10"
    "k_PTC damped_state * (res_u diverged_pass / 2) = 5 * 10 ^ 15"
    "res_u growing_pass = 4"
    by (simp_all add: damped_state_def lagrange_solver_def diverged_pass_def growing_pass_def)
  with diverged_pass_runs diverged_pass_monolithic_runs zero_factor_runs show ?thesis
    by blast
qed

text \<open>
  Claim C4, amended. In every pass after the first (iteration index at least 1 when the
  pass starts), with PTC active and a positive previous residual norm, the update step
  of both solvers multiplies the PTC factor by the ratio of the current to the previous
  residual norm. The pass ends with that factor unless it restarts on a solver error,
  which replaces the factor. For a positive factor, a larger residual norm increases it
  and a smaller one decreases it.
\<close>

theorem ptc_factor_update:
  assumes active: "PTC (slv st)" and later: "it st \<ge> 1"
    and prev: "struct_res_u_norm_last st = Some prev" "prev > 0"
  shows "(\<exists>st1. ptc_update (res_u ps) (advance ps st) = Inr st1
            \<and> k_PTC st1 = k_PTC st * (res_u ps / prev))
       \<and> (\<forall>st0. inner_solve s ps st = Inr st0 \<longrightarrow>
            (\<exists>st1. ptc_update (res_u ps) (advance_monolithic s ps st0) = Inr st1
               \<and> k_PTC st1 = k_PTC st * (res_u ps / prev)))
       \<and> (\<not> (divcont (slv st) = Some ''PTC'' \<and> cse (res_u ps) (inc_u ps) maxresval) \<longrightarrow>
            (newton_pass cse chk u_start p_start ps st = Inr (broke, st')
               \<longrightarrow> k_PTC st' = k_PTC st * (res_u ps / prev))
          \<and> (newton_pass_monolithic cse chk s u_start s_start p_start ps st = Inr (broke, st')
               \<longrightarrow> k_PTC st' = k_PTC st * (res_u ps / prev)))
       \<and> (0 < k_PTC st \<and> prev < res_u ps \<longrightarrow> k_PTC st < k_PTC st * (res_u ps / prev))
       \<and> (0 < k_PTC st \<and> res_u ps < prev \<longrightarrow> k_PTC st * (res_u ps / prev) < k_PTC st)"
proof -
  note step = ptc_update_step [OF active later prev, of ps]
  have mono: "\<forall>st0. inner_solve s ps st = Inr st0 \<longrightarrow>
            (\<exists>st1. ptc_update (res_u ps) (advance_monolithic s ps st0) = Inr st1
               \<and> k_PTC st1 = k_PTC st * (res_u ps / prev))"
    using ptc_update_step_monolithic [OF active later prev] by blast
  have kept: "(newton_pass cse chk u_start p_start ps st = Inr (broke, st')
               \<longrightarrow> k_PTC st' = k_PTC st * (res_u ps / prev))
          \<and> (newton_pass_monolithic cse chk s u_start s_start p_start ps st = Inr (broke, st')
               \<longrightarrow> k_PTC st' = k_PTC st * (res_u ps / prev))
          \<and> (0 < k_PTC st \<and> prev < res_u ps \<longrightarrow> k_PTC st < k_PTC st * (res_u ps / prev))
          \<and> (0 < k_PTC st \<and> res_u ps < prev \<longrightarrow> k_PTC st * (res_u ps / prev) < k_PTC st)"
    if "\<not> (divcont (slv st) = Some ''PTC'' \<and> cse (res_u ps) (inc_u ps) maxresval)"
    using ptc_factor_kept [where cse = cse and ps = ps and st = st and prev = prev,
        OF active later prev that] by blast
  have up: "k_PTC st < k_PTC st * (res_u ps / prev)" if "0 < k_PTC st" "prev < res_u ps"
  proof -
    have "1 < res_u ps / prev" using that(2) prev(2) by simp
    then have "k_PTC st * 1 < k_PTC st * (res_u ps / prev)"
      using that(1) by (rule mult_strict_left_mono)
    then show ?thesis by simp
  qed
  have down: "k_PTC st * (res_u ps / prev) < k_PTC st" if "0 < k_PTC st" "res_u ps < prev"
  proof -
    have "res_u ps / prev < 1" using that(2) prev(2) by simp
    then have "k_PTC st * (res_u ps / prev) < k_PTC st * 1"
      using that(1) by (rule mult_strict_left_mono)
    then show ?thesis by simp
  qed
  show ?thesis using step mono kept up down by blast
qed

theorem ptc_factor_update_witness:
  "PTC (slv damped_state) \<and> it damped_state \<ge> 1
   \<and> struct_res_u_norm_last damped_state = Some 2 \<and> (0::real) < 2
   \<and> (\<exists>st1. ptc_update (res_u diverged_pass) (advance diverged_pass damped_state) = Inr st1
          \<and> k_PTC st1 = k_PTC damped_state * (res_u diverged_pass / 2))
   \<and> \<not> large_residual (res_u growing_pass) (inc_u growing_pass) maxresval
   \<and> (\<exists>st'. newton_pass large_residual within_tolerances 1 0 growing_pass damped_state
               = Inr (False, st') \<and> k_PTC st' = 1 / 5)
   \<and> (\<exists>st'. newton_pass_monolithic large_residual within_tolerances StateVec 1 2 0 growing_pass
               damped_state = Inr (False, st') \<and> k_PTC st' = 1 / 5)
   \<and> k_PTC damped_state < k_PTC damped_state * (res_u growing_pass / 2)"
proof -
  have h: "PTC (slv damped_state)" "it damped_state \<ge> 1"
    "struct_res_u_norm_last damped_state = Some 2" "(0::real) < 2"
    by (simp_all add: damped_state_def lagrange_solver_def)
  have quiet: "\<not> large_residual (res_u growing_pass) (inc_u growing_pass) maxresval"
    by (simp add: growing_pass_def diverged_pass_def large_residual_def maxresval_def)
  have v: "k_PTC damped_state = 1 / 10" "res_u growing_pass = 4"
    by (simp_all add: damped_state_def growing_pass_def diverged_pass_def)
  from growing_pass_runs obtain sp where
    sp: "newton_pass large_residual within_tolerances 1 0 growing_pass damped_state = Inr (False, sp)"
    by blast
  from growing_pass_monolithic_runs obtain sm where
    sm: "newton_pass_monolithic large_residual within_tolerances StateVec 1 2 0 growing_pass
           damped_state = Inr (False, sm)"
    by blast
  have step: "\<exists>st1. ptc_update (res_u diverged_pass) (advance diverged_pass damped_state) = Inr st1
          \<and> k_PTC st1 = k_PTC damped_state * (res_u diverged_pass / 2)"
    using ptc_factor_update [where ps = diverged_pass and st = damped_state and prev = 2, OF h]
    by blast
  have "k_PTC sp = 1 / 5"
    using ptc_factor_update [where cse = large_residual and ps = growing_pass
        and st = damped_state and prev = 2 and chk = within_tolerances
        and u_start = 1 and p_start = 0 and broke = False and st' = sp, OF h] sp v quiet
    by simp
  moreover have "k_PTC sm = 1 / 5"
    using ptc_factor_update [where cse = large_residual and ps = growing_pass
        and st = damped_state and prev = 2 and chk = within_tolerances and s = StateVec
        and u_start = 1 and s_start = 2 and p_start = 0 and broke = False and st' = sm, OF h]
      sm v quiet
    by simp
  moreover have "k_PTC damped_state < k_PTC damped_state * (res_u growing_pass / 2)"
    using ptc_factor_update [where ps = growing_pass and st = damped_state and prev = 2, OF h] v
    by simp
  ultimately show ?thesis using h sp sm step quiet by blast
qed

section \<open>Failure and restart of the Newton iteration\<close>

text \<open>
  What the plain solver does when it does not converge. Without continuation, a run in
  which no pass converges ends with the \<^verbatim>\<open>RuntimeError\<close> of the loop once the iteration
  index reaches \<open>maxiter\<close>. With continuation, a pass that meets a solver error resets
  \<open>u\<close> (and \<open>p\<close> in the two-field case) to the start vectors, sets the iteration index
  to zero, draws a new PTC factor within the configured range times the initial factor
  and counts the restart; the loop raises once the counter reaches \<open>max_adapt\<close>.
\<close>

lemma reset_step_start [simp]: "reset_step vec vec_start = vec_start"
  by (simp add: reset_step_def axpby_def)

lemma uniform_in_range:
  assumes "low \<le> high" and "0 \<le> sample" and "sample \<le> 1"
  shows "low \<le> uniform low high sample \<and> uniform low high sample \<le> high"
proof -
  have d: "0 \<le> high - low" using assms(1) by simp
  have "0 \<le> (high - low) * sample"
    using d assms(2) by (rule mult_nonneg_nonneg)
  moreover have "(high - low) * sample \<le> (high - low) * 1"
    using assms(3) d by (rule mult_left_mono)
  ultimately show ?thesis by (simp add: uniform_def)
qed

lemma ptc_update_bound:
  assumes "norm_bound st"
  shows "\<exists>k. ptc_update res (advance ps st)
            = Inr ((advance ps st)\<lparr>k_PTC := k, struct_res_u_norm_last := Some res\<rparr>)"
proof (cases "struct_res_u_norm_last st")
  case None
  then have "it st < 1" using assms by (simp add: norm_bound_def)
  then have "\<not> it (advance ps st) > 1" using advance_fields [of ps st] by simp
  then have "ptc_update res (advance ps st)
      = Inr ((advance ps st)\<lparr>k_PTC := k_PTC (advance ps st), struct_res_u_norm_last := Some res\<rparr>)"
    by (simp add: ptc_update_def)
  then show ?thesis by blast
next
  case (Some prev)
  then have l: "struct_res_u_norm_last (advance ps st) = Some prev"
    using advance_fields [of ps st] by simp
  show ?thesis
  proof (cases "PTC (slv (advance ps st)) \<and> it (advance ps st) > 1 \<and> prev > 0")
    case True
    then have "ptc_update res (advance ps st)
      = Inr ((advance ps st)\<lparr>k_PTC := k_PTC (advance ps st) * (res / prev),
                               struct_res_u_norm_last := Some res\<rparr>)"
      using l by (simp add: ptc_update_def)
    then show ?thesis by blast
  next
    case False
    then have "ptc_update res (advance ps st)
      = Inr ((advance ps st)\<lparr>k_PTC := k_PTC (advance ps st), struct_res_u_norm_last := Some res\<rparr>)"
      using l by (auto simp: ptc_update_def)
    then show ?thesis by blast
  qed
qed

lemma newton_pass_restart:
  assumes on: "divcont (slv st) = Some ''PTC''"
    and err: "cse (res_u ps) (inc_u ps) maxresval"
    and quiet: "raised ps = None"
    and known: "solvetype_known (slv st)"
    and range: "PTC_randadapt_range (slv st) = [low, high]"
    and bound: "norm_bound st"
  shows "\<exists>broke st'. newton_pass cse chk u_start p_start ps st = Inr (broke, st')
           \<and> u st' = u_start
           \<and> (incompressible_2field (slv st) \<longrightarrow> p st' = p_start)
           \<and> k_PTC st' = k_PTC_initial (slv st) * uniform low high (xi ps)
           \<and> it st' = 0
           \<and> (\<not> broke \<longrightarrow> counter_adapt st' = counter_adapt st + 1 \<and> PTC (slv st'))"
proof -
  from ptc_update_bound [OF bound, of "res_u ps" ps] obtain k where
    a: "ptc_update (res_u ps) (advance ps st)
          = Inr ((advance ps st)\<lparr>k_PTC := k, struct_res_u_norm_last := Some (res_u ps)\<rparr>)"
    by blast
  have sv: "slv (advance ps st) = slv st" using advance_fields [of ps st] by simp
  show ?thesis
    unfolding newton_pass_def a
    using quiet known on err range sv
    by (auto simp: solvetype_known_def continue_on_divergence_def restart_ptc_def list_get_def
        converge_or_continue_def advance_fields Let_def)
qed

lemma newton_pass_without_continuation:
  assumes off: "divcont (slv st) \<noteq> Some ''PTC''"
    and quiet: "raised ps = None"
    and known: "solvetype_known (slv st)"
    and bound: "norm_bound st"
    and never: "\<not> chk (fst (pass_norms (slv st) ps)) (snd (pass_norms (slv st) ps))
                    (tolerances (slv st))"
  shows "\<exists>st'. newton_pass cse chk u_start p_start ps st = Inr (False, st')
           \<and> slv st' = slv st \<and> it st' = it st + 1
           \<and> counter_adapt st' = counter_adapt st \<and> norm_bound st'"
proof -
  from ptc_update_bound [OF bound, of "res_u ps" ps] obtain k where
    a: "ptc_update (res_u ps) (advance ps st)
          = Inr ((advance ps st)\<lparr>k_PTC := k, struct_res_u_norm_last := Some (res_u ps)\<rparr>)"
    by blast
  have sv: "slv (advance ps st) = slv st" using advance_fields [of ps st] by simp
  show ?thesis
    unfolding newton_pass_def a
    using quiet known off never sv
    by (auto simp: solvetype_known_def continue_on_divergence_def converge_or_continue_def
        advance_fields norm_bound_def)
qed

lemma newton_retries_exhausted:
  assumes "counter_adapt st \<ge> max_adapt"
  shows "newton_loop cse chk u_start p_start passes n st = Inl (RuntimeError (it st))"
  using assms by simp

lemma newton_without_continuation_fails:
  assumes off: "divcont (slv st) \<noteq> Some ''PTC''"
    and quiet: "\<forall>k. raised (passes k) = None"
    and known: "solvetype_known (slv st)"
    and bound: "norm_bound st"
    and never: "\<forall>k. \<not> chk (fst (pass_norms (slv st) (passes k)))
                          (snd (pass_norms (slv st) (passes k))) (tolerances (slv st))"
    and tries: "counter_adapt st < max_adapt"
  shows "newton_loop cse chk u_start p_start passes n st
           = Inl (RuntimeError (max (it st) (maxiter (slv st))))"
  using off known bound never tries
proof (induction "nat (maxiter (slv st) - it st)" arbitrary: st n)
  case 0
  then have "\<not> it st < maxiter (slv st)" by simp
  then show ?case by (simp add: max_def)
next
  case (Suc d)
  then have lt: "it st < maxiter (slv st)" by linarith
  have q: "raised (passes n) = None" using quiet by simp
  have nv: "\<not> chk (fst (pass_norms (slv st) (passes n))) (snd (pass_norms (slv st) (passes n)))
                (tolerances (slv st))"
    using Suc.prems(4) by simp
  from newton_pass_without_continuation [where chk = chk and ps = "passes n" and st = st
      and cse = cse and u_start = u_start and p_start = p_start, OF Suc.prems(1) q Suc.prems(2,3) nv]
  obtain st' where
    pass: "newton_pass cse chk u_start p_start (passes n) st = Inr (False, st')"
    and keep: "slv st' = slv st" "it st' = it st + 1" "counter_adapt st' = counter_adapt st"
      "norm_bound st'"
    by blast
  have d: "d = nat (maxiter (slv st') - it st')" using Suc.hyps(2) keep by simp
  have "newton_loop cse chk u_start p_start passes (Suc n) st'
          = Inl (RuntimeError (max (it st') (maxiter (slv st'))))"
    using Suc.hyps(1) [OF d] Suc.prems keep by simp
  moreover have "max (it st') (maxiter (slv st')) = max (it st) (maxiter (slv st))"
    using keep lt by simp
  ultimately show ?case
    using lt Suc.prems(5) pass by simp
qed

text \<open>
  The monolithic solver resets \<open>u\<close>, the vector passed as \<open>s\<close> and \<open>p\<close> in the same
  way. With Lagrange-multiplier coupling, when \<open>s\<close> is the state of the lumped model,
  the increment of the third block has gone into the multipliers, and they keep it.
\<close>

lemma ptc_update_monolithic_bound:
  assumes "norm_bound st"
  shows "\<exists>k. ptc_update res (advance_monolithic s ps st)
            = Inr ((advance_monolithic s ps st)\<lparr>k_PTC := k, struct_res_u_norm_last := Some res\<rparr>)"
proof (cases "struct_res_u_norm_last st")
  case None
  then have "it st < 1" using assms by (simp add: norm_bound_def)
  then have "\<not> it (advance_monolithic s ps st) > 1"
    using advance_monolithic_fields [of s ps st] by simp
  then have "ptc_update res (advance_monolithic s ps st)
      = Inr ((advance_monolithic s ps st)\<lparr>k_PTC := k_PTC (advance_monolithic s ps st),
                                            struct_res_u_norm_last := Some res\<rparr>)"
    by (simp add: ptc_update_def)
  then show ?thesis by blast
next
  case (Some prev)
  then have l: "struct_res_u_norm_last (advance_monolithic s ps st) = Some prev"
    using advance_monolithic_fields [of s ps st] by simp
  show ?thesis
  proof (cases "PTC (slv (advance_monolithic s ps st)) \<and> it (advance_monolithic s ps st) > 1
                \<and> prev > 0")
    case True
    then have "ptc_update res (advance_monolithic s ps st)
      = Inr ((advance_monolithic s ps st)\<lparr>k_PTC := k_PTC (advance_monolithic s ps st) * (res / prev),
                                            struct_res_u_norm_last := Some res\<rparr>)"
      using l by (simp add: ptc_update_def)
    then show ?thesis by blast
  next
    case False
    then have "ptc_update res (advance_monolithic s ps st)
      = Inr ((advance_monolithic s ps st)\<lparr>k_PTC := k_PTC (advance_monolithic s ps st),
                                            struct_res_u_norm_last := Some res\<rparr>)"
      using l by (auto simp: ptc_update_def)
    then show ?thesis by blast
  qed
qed

lemma advance_monolithic_store:
  "s \<noteq> LM \<Longrightarrow> coupling_type (slv st) = ''monolithic_lagrange'' \<Longrightarrow>
     store (advance_monolithic s ps st) LM = axpy 1 (del_s ps) (store st LM)"
  by (simp add: advance_monolithic_def Let_def)

lemma newton_pass_monolithic_restart:
  assumes on: "divcont (slv st) = Some ''PTC''"
    and err: "cse (res_u ps) (inc_u ps) maxresval"
    and quiet: "raised ps = None"
    and known: "solvetype_known (slv st)"
    and range: "PTC_randadapt_range (slv st) = [low, high]"
    and bound: "norm_bound st"
    and inner: "inner_solve s ps st = Inr st0"
  shows "\<exists>broke st'. newton_pass_monolithic cse chk s u_start s_start p_start ps st = Inr (broke, st')
           \<and> u st' = u_start \<and> store st' s = s_start
           \<and> (incompressible_2field (slv st) \<longrightarrow> p st' = p_start)
           \<and> k_PTC st' = k_PTC_initial (slv st) * uniform low high (xi ps)
           \<and> it st' = 0
           \<and> (\<not> broke \<longrightarrow> counter_adapt st' = counter_adapt st + 1)
           \<and> (s \<noteq> LM \<and> coupling_type (slv st) = ''monolithic_lagrange''
                \<longrightarrow> store st' LM = store st0 LM + del_s ps)"
proof -
  note i = inner_solve_Inr [OF inner]
  have b0: "norm_bound st0" using bound i by (simp add: norm_bound_def)
  from ptc_update_monolithic_bound [OF b0, of "res_u ps" s ps] obtain k where
    a: "ptc_update (res_u ps) (advance_monolithic s ps st0)
          = Inr ((advance_monolithic s ps st0)\<lparr>k_PTC := k,
                    struct_res_u_norm_last := Some (res_u ps)\<rparr>)"
    by blast
  have sv: "slv (advance_monolithic s ps st0) = slv st"
    using advance_monolithic_fields [of s ps st0] i by simp
  have cnt: "counter_adapt (advance_monolithic s ps st0) = counter_adapt st"
    using advance_monolithic_fields [of s ps st0] i by simp
  have lm: "store (advance_monolithic s ps st0) LM = store st0 LM + del_s ps"
    if "s \<noteq> LM" "coupling_type (slv st) = ''monolithic_lagrange''"
    using advance_monolithic_store [of s st0 ps] that i by (simp add: axpy_def)
  have known0: "solvetype (slv st0) = ''direct'' \<or> solvetype (slv st0) = ''iterative''"
    using known i by (simp add: solvetype_known_def)
  have pass: "newton_pass_monolithic cse chk s u_start s_start p_start ps st
      = ebind (continue_on_divergence_monolithic cse s u_start s_start p_start ps
                 ((advance_monolithic s ps st0)\<lparr>k_PTC := k,
                    struct_res_u_norm_last := Some (res_u ps)\<rparr>))
          (\<lambda>st2. Inr (converge_or_continue
                  (chk (fst (pass_norms_monolithic (slv st) ps))
                     (snd (pass_norms_monolithic (slv st) ps)) (tolerances (slv st2)))
                  st2))"
    using known0 by (auto simp: newton_pass_monolithic_def inner a quiet)
  show ?thesis
    unfolding pass
    using on err range sv cnt lm
    by (auto simp: continue_on_divergence_monolithic_def restart_ptc_def
        list_get_def converge_or_continue_def Let_def)
qed

text \<open>
  Claim C1, at a failing input. The monolithic solver, coupled to a lumped model by
  Lagrange multipliers, with continuation enabled, meets a residual norm of \<open>10^17\<close> in
  its first pass. The pass restarts the iteration (index 0, one restart counted) and
  resets \<open>u\<close> and \<open>s\<close> to their start values 1 and 2, but the multipliers, 7 at the
  start, are left at 10: the increment 3 is not taken back.
\<close>

theorem monolithic_restart_keeps_multipliers:
  "store first_state LM = 7
   \<and> (\<exists>st'. newton_pass_monolithic large_residual within_tolerances StateVec 1 2 0
               diverged_pass first_state = Inr (False, st')
          \<and> it st' = 0 \<and> counter_adapt st' = 1 \<and> u st' = 1 \<and> store st' StateVec = 2
          \<and> store st' LM = 10)"
  by (simp add: pass_simps lagrange_solver_def diverged_pass_def first_state_def)

end
